theory Spec2Isabelle
  imports Main "HOL-Library.AList"
begin

section \<open>Values, objects and the store\<close>

text \<open>
  The renderer is TypeScript over mutable JavaScript objects, so the embedding carries an
  explicit store. A value is a primitive or a reference into the store; functions and
  arrays are objects of the store, as in JavaScript. What the model leaves out of
  JavaScript: prototype chains (an object of the store holds the members it answers for,
  its own and its class's alike, and a read of any other name gives \<open>undefined\<close>;
  the constructor of an object is its \<open>ctor\<close> tag; of a string's members only
  \<open>length\<close> and the characters are there), accessors, frozen objects, holes in
  arrays (a hole reads as \<open>undefined\<close>), \<open>NaN\<close> and non-integer numbers. A
  character of a string stands for one code unit. The module is strict-mode code: a
  property write on a primitive throws, and a function called without a receiver has
  \<open>this\<close> undefined.

  The definitions follow the renderer that \<open>src/index.tsx\<close> imports (the revision
  that exports \<open>renderer\<close>, with the \<open>dispose\<close> flag). The older revision of the
  same file differs in the reserved keys (no \<open>dispose\<close>), in the copy test of the
  applier, in the linking of \<open>insertNode\<close> (given below as \<open>link_r0\<close>) and in the
  disposal, which it defers with \<open>requestIdleCallback\<close>.
\<close>

type_synonym addr = nat

datatype val = Undefined | Null | Bool bool | Num int | Str string | Ref addr

datatype error = TypeError | RangeError | Error string | Thrown val

record obj =
  ctor :: string
  isa :: "string list"
  callable :: "nat option"
  elems :: "val list option"
  slots :: "string \<rightharpoonup> val"

record store =
  objs :: "addr \<Rightarrow> obj"
  fresh :: addr

definition truthy :: "val \<Rightarrow> bool" where
  "truthy v = (case v of Undefined \<Rightarrow> False | Null \<Rightarrow> False | Bool b \<Rightarrow> b
     | Num n \<Rightarrow> n \<noteq> 0 | Str s \<Rightarrow> s \<noteq> [] | Ref a \<Rightarrow> True)"

definition nullish :: "val \<Rightarrow> bool" where
  "nullish v = (v = Undefined \<or> v = Null)"

definition is_digit :: "char \<Rightarrow> bool" where
  "is_digit c = (c \<in> set ''0123456789'')"

definition digit_val :: "char \<Rightarrow> nat" where
  "digit_val c = of_char c - 48"

text \<open>
  A property name that is an array index: the canonical decimal form, with no leading
  zero, of an integer below \<open>2^32 - 1\<close>.
\<close>

definition parse_index :: "string \<Rightarrow> nat option" where
  "parse_index k =
     (if k = [] \<or> \<not> list_all is_digit k \<or> (hd k = CHR ''0'' \<and> length k > 1) then None
      else if foldl (\<lambda>n c. 10 * n + digit_val c) 0 k < 4294967295
      then Some (foldl (\<lambda>n c. 10 * n + digit_val c) 0 k)
      else None)"

definition get_prop :: "obj \<Rightarrow> string \<Rightarrow> val" where
  "get_prop ob k =
     (case elems ob of
        Some xs \<Rightarrow>
          (case parse_index k of
             Some i \<Rightarrow> (if i < length xs then xs ! i else Undefined)
           | None \<Rightarrow>
               (if k = ''length'' then Num (int (length xs))
                else (case slots ob k of Some v \<Rightarrow> v | None \<Rightarrow> Undefined)))
      | None \<Rightarrow> (case slots ob k of Some v \<Rightarrow> v | None \<Rightarrow> Undefined))"

text \<open>A string answers for its \<open>length\<close> and for its characters.\<close>

definition get_char :: "string \<Rightarrow> string \<Rightarrow> val" where
  "get_char str k =
     (if k = ''length'' then Num (int (length str))
      else (case parse_index k of
              Some i \<Rightarrow> (if i < length str then Str [str ! i] else Undefined)
            | None \<Rightarrow> Undefined))"

text \<open>\<open>v?.[k]\<close>: the optional read, \<open>undefined\<close> on \<open>undefined\<close> and \<open>null\<close>.\<close>

definition getp :: "store \<Rightarrow> val \<Rightarrow> string \<Rightarrow> val" where
  "getp st v k =
     (case v of Ref a \<Rightarrow> get_prop (objs st a) k | Str str \<Rightarrow> get_char str k | _ \<Rightarrow> Undefined)"

text \<open>\<open>v[k]\<close>: a read throws a TypeError on \<open>undefined\<close> and \<open>null\<close>.\<close>

definition getv :: "store \<Rightarrow> val \<Rightarrow> string \<Rightarrow> error + val" where
  "getv st v k = (if nullish v then Inl TypeError else Inr (getp st v k))"

definition set_prop :: "obj \<Rightarrow> string \<Rightarrow> val \<Rightarrow> error + obj" where
  "set_prop ob k x =
     (case elems ob of
        Some xs \<Rightarrow>
          (case parse_index k of
             Some i \<Rightarrow>
               Inr (ob\<lparr>elems := Some (if i < length xs then xs[i := x]
                                       else xs @ replicate (i - length xs) Undefined @ [x])\<rparr>)
           | None \<Rightarrow>
               (if k = ''length'' then
                  (case x of
                     Num n \<Rightarrow>
                       (if 0 \<le> n then
                          Inr (ob\<lparr>elems := Some (take (nat n) xs @ replicate (nat n - length xs) Undefined)\<rparr>)
                        else Inl RangeError)
                   | _ \<Rightarrow> Inl RangeError)
                else Inr (ob\<lparr>slots := (slots ob)(k \<mapsto> x)\<rparr>)))
      | None \<Rightarrow> Inr (ob\<lparr>slots := (slots ob)(k \<mapsto> x)\<rparr>))"

text \<open>\<open>v[k] = x\<close>.\<close>

definition setv :: "store \<Rightarrow> val \<Rightarrow> string \<Rightarrow> val \<Rightarrow> error + store" where
  "setv st v k x =
     (case v of
        Ref a \<Rightarrow>
          (case set_prop (objs st a) k x of
             Inl e \<Rightarrow> Inl e
           | Inr ob \<Rightarrow> Inr (st\<lparr>objs := (objs st)(a := ob)\<rparr>))
      | _ \<Rightarrow> Inl TypeError)"

text \<open>\<open>delete v[k]\<close>, for a key that is not an array index.\<close>

definition delv :: "store \<Rightarrow> val \<Rightarrow> string \<Rightarrow> error + store" where
  "delv st v k =
     (case v of
        Undefined \<Rightarrow> Inl TypeError
      | Null \<Rightarrow> Inl TypeError
      | Ref a \<Rightarrow> Inr (st\<lparr>objs := (objs st)(a := (objs st a)\<lparr>slots := (slots (objs st a))(k := None)\<rparr>)\<rparr>)
      | _ \<Rightarrow> Inr st)"

definition alloc :: "store \<Rightarrow> obj \<Rightarrow> addr \<times> store" where
  "alloc st ob = (fresh st, st\<lparr>objs := (objs st)(fresh st := ob), fresh := Suc (fresh st)\<rparr>)"

definition plain :: "(string \<rightharpoonup> val) \<Rightarrow> obj" where
  "plain fs = \<lparr>ctor = ''Object'', isa = [], callable = None, elems = None, slots = fs\<rparr>"

definition array :: "val list \<Rightarrow> obj" where
  "array xs = \<lparr>ctor = ''Array'', isa = [], callable = None, elems = Some xs, slots = Map.empty\<rparr>"

definition isArray :: "store \<Rightarrow> val \<Rightarrow> bool" where
  "isArray st v = (case v of Ref a \<Rightarrow> elems (objs st a) \<noteq> None | _ \<Rightarrow> False)"

definition instanceof :: "store \<Rightarrow> val \<Rightarrow> string \<Rightarrow> bool" where
  "instanceof st v c = (case v of Ref a \<Rightarrow> c \<in> set (isa (objs st a)) | _ \<Rightarrow> False)"

definition is_function :: "store \<Rightarrow> val \<Rightarrow> bool" where
  "is_function st v = (case v of Ref a \<Rightarrow> callable (objs st a) \<noteq> None | _ \<Rightarrow> False)"

text \<open>\<open>v.constructor\<close>, by the object's tag; primitives answer with their wrapper.\<close>

definition constructor_of :: "store \<Rightarrow> val \<Rightarrow> error + string" where
  "constructor_of st v =
     (case v of
        Undefined \<Rightarrow> Inl TypeError
      | Null \<Rightarrow> Inl TypeError
      | Bool b \<Rightarrow> Inr ''Boolean''
      | Num n \<Rightarrow> Inr ''Number''
      | Str s \<Rightarrow> Inr ''String''
      | Ref a \<Rightarrow> Inr (ctor (objs st a)))"

section \<open>The path resolver\<close>

text \<open>\<open>key.split('-')\<close>.\<close>

fun split_dash :: "string \<Rightarrow> string list" where
  "split_dash [] = [[]]"
| "split_dash (c # cs) =
     (if c = CHR ''-'' then [] # split_dash cs
      else (case split_dash cs of [] \<Rightarrow> [[c]] | seg # segs \<Rightarrow> (c # seg) # segs))"

text \<open>\<open>chain.reduce((acc, key) => acc[key], root)\<close>.\<close>

fun reduce :: "store \<Rightarrow> string list \<Rightarrow> val \<Rightarrow> error + val" where
  "reduce st [] acc = Inr acc"
| "reduce st (k # ks) acc =
     (case getv st acc k of Inl e \<Rightarrow> Inl e | Inr v \<Rightarrow> reduce st ks v)"

text \<open>\<open>target?.set\<close> taken as a condition.\<close>

definition has_settor :: "store \<Rightarrow> val \<Rightarrow> bool" where
  "has_settor st target = truthy (getp st target ''set'')"

definition resolve :: "store \<Rightarrow> val \<Rightarrow> string \<Rightarrow> error + (val \<times> string \<times> val)" where
  "resolve st root key =
     (case getv st root key of
        Inl e \<Rightarrow> Inl e
      | Inr target0 \<Rightarrow>
          if CHR ''-'' \<notin> set key then Inr (root, key, target0)
          else
            let chain = split_dash key in
            (case reduce st chain root of
               Inl e \<Rightarrow> Inl e
             | Inr target \<Rightarrow>
                 let key' = last chain; chain' = butlast chain in
                 if \<not> has_settor st target then
                   (case reduce st chain' root of
                      Inl e \<Rightarrow> Inl e
                    | Inr root' \<Rightarrow> Inr (root', key', target))
                 else Inr (root, key', target)))"


section \<open>Tree nodes, the host state and the graph library\<close>

text \<open>
  A tree node (\<open>Instance\<close>) has an identity, as the objects of the store have: the
  host compares nodes by reference. \<open>props\<close> keeps its entries in the order they
  were created in.
\<close>

record node =
  type :: string
  parent :: "nat option"
  children :: "nat list"
  object :: val
  props :: "(string \<times> val) list"

text \<open>
  The order \<open>for ... in\<close> visits the entries in: the array indices first, ascending,
  then the other names in the order they were created in.
\<close>

definition for_in :: "(string \<times> val) list \<Rightarrow> (string \<times> val) list" where
  "for_in ps =
     sort_key (\<lambda>(k, v). case parse_index k of Some i \<Rightarrow> i | None \<Rightarrow> 0)
       (filter (\<lambda>(k, v). parse_index k \<noteq> None) ps) @
     filter (\<lambda>(k, v). parse_index k = None) ps"

text \<open>
  The graph library (three.js) and the functions a user hands in are not part of the
  renderer: they are a parameter. \<open>invoke L i this args\<close> runs function \<open>i\<close>;
  \<open>construct L i args\<close> is \<open>new\<close> on function \<open>i\<close> and returns the new
  object's content (on a function that is no constructor it throws a TypeError). Either
  may change the store and may throw. The host state records every such call. Two tables
  of the JavaScript engine come with the library: \<open>toUpperCase L\<close>, the upper-casing
  of a string, and \<open>inherited L\<close>, the members a plain object such as the catalogue
  inherits from \<open>Object.prototype\<close>.
\<close>

record lib =
  invoke :: "nat \<Rightarrow> val \<Rightarrow> val list \<Rightarrow> store \<Rightarrow> (error \<times> store) + (val \<times> store)"
  construct :: "nat \<Rightarrow> val list \<Rightarrow> store \<Rightarrow> (error \<times> store) + (obj \<times> store)"
  toUpperCase :: "string \<Rightarrow> string"
  inherited :: "string \<rightharpoonup> val"

datatype event = New nat "val list" | Call nat val "val list"

record state =
  mem :: store
  nodes :: "nat \<Rightarrow> node"
  nodeCount :: nat
  calls :: "event list"

text \<open>An operation of the host returns the new state, or the error thrown and the state it left.\<close>

type_synonym result = "(error \<times> state) + state"

definition prop_of :: "node \<Rightarrow> string \<Rightarrow> val" where
  "prop_of n k = (case map_of (props n) k of Some v \<Rightarrow> v | None \<Rightarrow> Undefined)"

definition put :: "state \<Rightarrow> val \<Rightarrow> string \<Rightarrow> val \<Rightarrow> result" where
  "put s v k x = (case setv (mem s) v k x of Inl e \<Rightarrow> Inl (e, s) | Inr st \<Rightarrow> Inr (s\<lparr>mem := st\<rparr>))"

text \<open>\<open>f.call(this, ...args)\<close>.\<close>

definition call :: "lib \<Rightarrow> state \<Rightarrow> val \<Rightarrow> val \<Rightarrow> val list \<Rightarrow> (error \<times> state) + (val \<times> state)" where
  "call L s f this args =
     (case f of
        Ref a \<Rightarrow>
          (case callable (objs (mem s) a) of
             Some i \<Rightarrow>
               (let s1 = s\<lparr>calls := calls s @ [Call i this args]\<rparr> in
                case invoke L i this args (mem s1) of
                  Inl (e, st) \<Rightarrow> Inl (e, s1\<lparr>mem := st\<rparr>)
                | Inr (r, st) \<Rightarrow> Inr (r, s1\<lparr>mem := st\<rparr>))
           | None \<Rightarrow> Inl (TypeError, s))
      | _ \<Rightarrow> Inl (TypeError, s))"

text \<open>\<open>target.m(...args)\<close>, the value returned dropped.\<close>

definition callm :: "lib \<Rightarrow> state \<Rightarrow> val \<Rightarrow> string \<Rightarrow> val list \<Rightarrow> result" where
  "callm L s target m args =
     (case getv (mem s) target m of
        Inl e \<Rightarrow> Inl (e, s)
      | Inr f \<Rightarrow> (case call L s f target args of Inl e \<Rightarrow> Inl e | Inr (r, s1) \<Rightarrow> Inr s1))"

text \<open>\<open>new target(...args)\<close>.\<close>

definition new :: "lib \<Rightarrow> state \<Rightarrow> val \<Rightarrow> val list \<Rightarrow> (error \<times> state) + (addr \<times> state)" where
  "new L s target args =
     (case target of
        Ref f \<Rightarrow>
          (case callable (objs (mem s) f) of
             Some i \<Rightarrow>
               (let s1 = s\<lparr>calls := calls s @ [New i args]\<rparr> in
                case construct L i args (mem s1) of
                  Inl (e, st) \<Rightarrow> Inl (e, s1\<lparr>mem := st\<rparr>)
                | Inr (ob, st) \<Rightarrow> (case alloc st ob of (a, st') \<Rightarrow> Inr (a, s1\<lparr>mem := st'\<rparr>)))
           | None \<Rightarrow> Inl (TypeError, s))
      | _ \<Rightarrow> Inl (TypeError, s))"

text \<open>\<open>...v\<close>: an array spreads to its elements, a string to its characters.\<close>

definition spread :: "store \<Rightarrow> val \<Rightarrow> error + val list" where
  "spread st v =
     (case v of
        Ref a \<Rightarrow> (case elems (objs st a) of Some xs \<Rightarrow> Inr xs | None \<Rightarrow> Inl TypeError)
      | Str s \<Rightarrow> Inr (map (\<lambda>c. Str [c]) s)
      | _ \<Rightarrow> Inl TypeError)"

text \<open>\<open>xs.indexOf(x)\<close>, \<open>-1\<close> when absent.\<close>

fun indexOf :: "'a list \<Rightarrow> 'a \<Rightarrow> int" where
  "indexOf [] x = -1"
| "indexOf (y # ys) x = (if y = x then 0 else (let i = indexOf ys x in if i = -1 then -1 else i + 1))"

section \<open>The attachment manager\<close>

text \<open>
  \<open>INDEX_REGEX = /-\d+$/\<close>: \<open>test\<close> and \<open>replace(INDEX_REGEX, '')\<close>. In
  \<open>attach\<close> the user's function is called on \<open>child.props\<close>, which is no object
  of the store: its receiver is passed as \<open>undefined\<close>.
\<close>

definition INDEX_REGEX_test :: "string \<Rightarrow> bool" where
  "INDEX_REGEX_test s =
     (let ds = takeWhile is_digit (rev s); rest = dropWhile is_digit (rev s)
      in ds \<noteq> [] \<and> rest \<noteq> [] \<and> hd rest = CHR ''-'')"

definition INDEX_REGEX_strip :: "string \<Rightarrow> string" where
  "INDEX_REGEX_strip s = (if INDEX_REGEX_test s then rev (tl (dropWhile is_digit (rev s))) else s)"

definition attach :: "lib \<Rightarrow> state \<Rightarrow> nat \<Rightarrow> nat \<Rightarrow> result" where
  "attach L s par child =
     (case prop_of (nodes s child) ''attach'' of
        Str path \<Rightarrow>
          (case
             (if INDEX_REGEX_test path then
                (case resolve (mem s) (object (nodes s par)) (INDEX_REGEX_strip path) of
                   Inl e \<Rightarrow> Inl (e, s)
                 | Inr (root, key, target) \<Rightarrow>
                     (case getv (mem s) root key of
                        Inl e \<Rightarrow> Inl (e, s)
                      | Inr v \<Rightarrow>
                          if \<not> isArray (mem s) v then
                            (case alloc (mem s) (array []) of
                               (a, st) \<Rightarrow> put (s\<lparr>mem := st\<rparr>) root key (Ref a))
                          else Inr s))
              else Inr s)
           of
             Inl e \<Rightarrow> Inl e
           | Inr s1 \<Rightarrow>
               (case resolve (mem s1) (object (nodes s1 par)) path of
                  Inl e \<Rightarrow> Inl (e, s1)
                | Inr (root, key, target) \<Rightarrow>
                    (case getv (mem s1) root key of
                       Inl e \<Rightarrow> Inl (e, s1)
                     | Inr prev \<Rightarrow>
                         (case put s1 (object (nodes s1 child)) ''__previousAttach'' prev of
                            Inl e \<Rightarrow> Inl e
                          | Inr s2 \<Rightarrow> put s2 root key (object (nodes s2 child))))))
      | a \<Rightarrow>
          if is_function (mem s) a then
            (case call L s a Undefined [object (nodes s par), object (nodes s child)] of
               Inl e \<Rightarrow> Inl e
             | Inr (r, s1) \<Rightarrow> put s1 (object (nodes s1 child)) ''__previousAttach'' r)
          else Inr s)"

definition detach :: "lib \<Rightarrow> state \<Rightarrow> nat \<Rightarrow> nat \<Rightarrow> result" where
  "detach L s par child =
     (case
        (case prop_of (nodes s child) ''attach'' of
           Str path \<Rightarrow>
             (case resolve (mem s) (object (nodes s par)) path of
                Inl e \<Rightarrow> Inl (e, s)
              | Inr (root, key, target) \<Rightarrow>
                  (case getv (mem s) (object (nodes s child)) ''__previousAttach'' of
                     Inl e \<Rightarrow> Inl (e, s)
                   | Inr prev \<Rightarrow> put s root key prev))
         | a \<Rightarrow>
             if is_function (mem s) a then
               (case getv (mem s) (object (nodes s child)) ''__previousAttach'' of
                  Inl e \<Rightarrow> Inl (e, s)
                | Inr f \<Rightarrow>
                    (case call L s f (object (nodes s child))
                            [object (nodes s par), object (nodes s child)] of
                       Inl e \<Rightarrow> Inl e
                     | Inr (r, s1) \<Rightarrow> Inr s1))
             else Inr s)
      of
        Inl e \<Rightarrow> Inl e
      | Inr s1 \<Rightarrow>
          (case delv (mem s1) (object (nodes s1 child)) ''__previousAttach'' of
             Inl e \<Rightarrow> Inl (e, s1)
           | Inr st \<Rightarrow> Inr (s1\<lparr>mem := st\<rparr>)))"


section \<open>The property applier\<close>

definition RESERVED_PROPS :: "string list" where
  "RESERVED_PROPS = [''args'', ''object'', ''dispose'', ''attach'']"

text \<open>
  \<open>target.copy && target.constructor === value.constructor\<close>: the constructors are
  read only when \<open>target.copy\<close> is there, and reading the constructor of
  \<open>undefined\<close> or \<open>null\<close> throws.
\<close>

definition copy_applies :: "store \<Rightarrow> val \<Rightarrow> val \<Rightarrow> error + bool" where
  "copy_applies st target v =
     (if truthy (getp st target ''copy'') then
        (case constructor_of st target of
           Inl e \<Rightarrow> Inl e
         | Inr c \<Rightarrow> (case constructor_of st v of Inl e \<Rightarrow> Inl e | Inr c' \<Rightarrow> Inr (c = c')))
      else Inr False)"

text \<open>The body of the loop of \<open>applyProps\<close>, for a key that is not reserved.\<close>

definition applyProp :: "lib \<Rightarrow> state \<Rightarrow> val \<Rightarrow> string \<Rightarrow> val \<Rightarrow> result" where
  "applyProp L s ob prop v =
     (case resolve (mem s) ob prop of
        Inl e \<Rightarrow> Inl (e, s)
      | Inr (root, key, target) \<Rightarrow>
          if \<not> has_settor (mem s) target then put s root key v
          else
            (case copy_applies (mem s) target v of
               Inl e \<Rightarrow> Inl (e, s)
             | Inr True \<Rightarrow> callm L s target ''copy'' [v]
             | Inr False \<Rightarrow>
                 if isArray (mem s) v then
                   (case spread (mem s) v of
                      Inl e \<Rightarrow> Inl (e, s)
                    | Inr vs \<Rightarrow> callm L s target ''set'' vs)
                 else if \<not> instanceof (mem s) target ''Color'' \<and> truthy (getp (mem s) target ''setScalar'')
                 then callm L s target ''setScalar'' [v]
                 else callm L s target ''set'' [v]))"

fun applyProps :: "lib \<Rightarrow> state \<Rightarrow> val \<Rightarrow> (string \<times> val) list \<Rightarrow> result" where
  "applyProps L s ob [] = Inr s"
| "applyProps L s ob ((prop, v) # rest) =
     (if prop \<in> set RESERVED_PROPS then applyProps L s ob rest
      else (case applyProp L s ob prop v of
              Inl e \<Rightarrow> Inl e
            | Inr s1 \<Rightarrow> applyProps L s1 ob rest))"

text \<open>
  The older revision (part_000) reserves three keys only and has no \<open>target.copy\<close>
  in its copy test: \<open>if (target.constructor === value.constructor) target.copy(value)\<close>.
\<close>

definition RESERVED_PROPS_r0 :: "string list" where
  "RESERVED_PROPS_r0 = [''args'', ''attach'', ''object'']"

definition applyProp_r0 :: "lib \<Rightarrow> state \<Rightarrow> val \<Rightarrow> string \<Rightarrow> val \<Rightarrow> result" where
  "applyProp_r0 L s ob prop v =
     (case resolve (mem s) ob prop of
        Inl e \<Rightarrow> Inl (e, s)
      | Inr (root, key, target) \<Rightarrow>
          if has_settor (mem s) target then
            (case constructor_of (mem s) target of
               Inl e \<Rightarrow> Inl (e, s)
             | Inr c \<Rightarrow>
                 (case constructor_of (mem s) v of
                    Inl e \<Rightarrow> Inl (e, s)
                  | Inr c' \<Rightarrow>
                      if c = c' then callm L s target ''copy'' [v]
                      else if isArray (mem s) v then
                        (case spread (mem s) v of
                           Inl e \<Rightarrow> Inl (e, s)
                         | Inr vs \<Rightarrow> callm L s target ''set'' vs)
                      else if \<not> instanceof (mem s) target ''Color'' \<and>
                              truthy (getp (mem s) target ''setScalar'')
                      then callm L s target ''setScalar'' [v]
                      else callm L s target ''set'' [v]))
          else put s root key v)"

fun applyProps_r0 :: "lib \<Rightarrow> state \<Rightarrow> val \<Rightarrow> (string \<times> val) list \<Rightarrow> result" where
  "applyProps_r0 L s ob [] = Inr s"
| "applyProps_r0 L s ob ((prop, v) # rest) =
     (if prop \<in> set RESERVED_PROPS_r0 then applyProps_r0 L s ob rest
      else (case applyProp_r0 L s ob prop v of
              Inl e \<Rightarrow> Inl e
            | Inr s1 \<Rightarrow> applyProps_r0 L s1 ob rest))"

section \<open>The reconciliation host\<close>

definition upd_node :: "state \<Rightarrow> nat \<Rightarrow> (node \<Rightarrow> node) \<Rightarrow> state" where
  "upd_node s n f = s\<lparr>nodes := (nodes s)(n := f (nodes s n))\<rparr>"



text \<open>\<open>str.charAt(0).toUpperCase() + str.substring(1)\<close>.\<close>

definition toPascalCase :: "lib \<Rightarrow> string \<Rightarrow> string" where
  "toPascalCase L str = toUpperCase L (take 1 str) @ drop 1 str"

text \<open>
  \<open>removeNode\<close> in its three steps: the node links, the object (the attach slot or the
  graph), the disposal.
\<close>

definition unlink :: "state \<Rightarrow> nat \<Rightarrow> nat \<Rightarrow> state" where
  "unlink s par child =
     (let s1 = upd_node s child (\<lambda>nd. nd\<lparr>parent := None\<rparr>);
          childIndex = indexOf (children (nodes s1 par)) child
      in
        if childIndex \<noteq> -1
        then upd_node s1 par (\<lambda>nd. nd\<lparr>children :=
               take (nat childIndex) (children nd) @ drop (Suc (nat childIndex)) (children nd)\<rparr>)
        else s1)"

definition remove_object :: "lib \<Rightarrow> state \<Rightarrow> nat \<Rightarrow> nat \<Rightarrow> result" where
  "remove_object L s par child =
     (if truthy (prop_of (nodes s child) ''attach'') then detach L s par child
      else if instanceof (mem s) (object (nodes s par)) ''Object3D'' \<and>
              instanceof (mem s) (object (nodes s child)) ''Object3D''
      then callm L s (object (nodes s par)) ''remove'' [object (nodes s child)]
      else Inr s)"

definition dispose_object :: "lib \<Rightarrow> state \<Rightarrow> nat \<Rightarrow> result" where
  "dispose_object L s child =
     (if prop_of (nodes s child) ''dispose'' \<noteq> Null \<and> type (nodes s child) \<noteq> ''primitive'' then
        (case getv (mem s) (object (nodes s child)) ''dispose'' of
           Inl e \<Rightarrow> Inl (e, s)
         | Inr f \<Rightarrow>
             if nullish f then Inr s
             else (case call L s f (object (nodes s child)) [] of
                     Inl e \<Rightarrow> Inl e
                   | Inr (r, s1) \<Rightarrow> Inr s1))
      else Inr s)"

definition removeNode :: "lib \<Rightarrow> state \<Rightarrow> nat \<Rightarrow> nat \<Rightarrow> result" where
  "removeNode L s par child =
     (case remove_object L (unlink s par child) par child of
        Inl e \<Rightarrow> Inl e
      | Inr s1 \<Rightarrow> dispose_object L s1 child)"

text \<open>The two messages \<open>insertNode\<close> throws.\<close>

definition object_unset :: string where
  \<open>object_unset = ''"object" must be set when using primitives!''\<close>

definition not_in_catalog :: "string \<Rightarrow> string" where
  "not_in_catalog t = t @ '' is not a part of the THREE catalog! Did you forget to extend?''"

text \<open>
  \<open>catalogue[name]\<close>: the entry registered under the name, else the member of that
  name the catalogue inherits, else \<open>undefined\<close>.
\<close>

definition lookup :: "lib \<Rightarrow> (string \<rightharpoonup> val) \<Rightarrow> string \<Rightarrow> val" where
  "lookup L catalogue name =
     (case catalogue name of
        Some c \<Rightarrow> c
      | None \<Rightarrow> (case inherited L name of Some c \<Rightarrow> c | None \<Rightarrow> Undefined))"

text \<open>\<open>catalogue[child.type.charAt(0).toUpperCase() + child.type.substring(1)]\<close>.\<close>

definition entry :: "lib \<Rightarrow> (string \<rightharpoonup> val) \<Rightarrow> state \<Rightarrow> nat \<Rightarrow> val" where
  "entry L catalogue s child = lookup L catalogue (toPascalCase L (type (nodes s child)))"

text \<open>\<open>...(child.props.args ?? [])\<close>.\<close>

definition spread_args :: "state \<Rightarrow> nat \<Rightarrow> error + val list" where
  "spread_args s child =
     (let a = prop_of (nodes s child) ''args'' in if nullish a then Inr [] else spread (mem s) a)"

text \<open>The first block of \<open>insertNode\<close>: the object of an uncommitted node.\<close>

definition create_object :: "lib \<Rightarrow> (string \<rightharpoonup> val) \<Rightarrow> state \<Rightarrow> nat \<Rightarrow> result" where
  "create_object L catalogue s child =
     (if type (nodes s child) = ''primitive'' then
        (if \<not> truthy (prop_of (nodes s child) ''object'')
         then Inl (Error object_unset, s)
         else Inr (upd_node s child (\<lambda>nd. nd\<lparr>object := prop_of nd ''object''\<rparr>)))
      else
        (let target = entry L catalogue s child
         in
           if \<not> truthy target
           then Inl (Error (not_in_catalog (type (nodes s child))), s)
           else
             (case spread_args s child of
                Inl e \<Rightarrow> Inl (e, s)
              | Inr args \<Rightarrow>
                  (case new L s target args of
                     Inl e \<Rightarrow> Inl e
                   | Inr (a, s1) \<Rightarrow> Inr (upd_node s1 child (\<lambda>nd. nd\<lparr>object := Ref a\<rparr>))))))"

text \<open>The whole commit: the object, the attach slot by default, the initial properties.\<close>

definition commit :: "lib \<Rightarrow> (string \<rightharpoonup> val) \<Rightarrow> state \<Rightarrow> nat \<Rightarrow> result" where
  "commit L catalogue s child =
     (case create_object L catalogue s child of
        Inl e \<Rightarrow> Inl e
      | Inr s1 \<Rightarrow>
          (let s2 =
             (if prop_of (nodes s1 child) ''attach'' = Undefined then
                (if instanceof (mem s1) (object (nodes s1 child)) ''BufferGeometry''
                 then upd_node s1 child (\<lambda>nd. nd\<lparr>props := AList.update ''attach'' (Str ''geometry'') (props nd)\<rparr>)
                 else if instanceof (mem s1) (object (nodes s1 child)) ''Material''
                 then upd_node s1 child (\<lambda>nd. nd\<lparr>props := AList.update ''attach'' (Str ''material'') (props nd)\<rparr>)
                 else s1)
              else s1)
           in applyProps L s2 (object (nodes s2 child)) (for_in (props (nodes s2 child)))))"

text \<open>
  \<open>xs.splice(start, 0, x)\<close>: a negative start counts from the end, and the start is
  clamped to the array.
\<close>

definition splice_in :: "int \<Rightarrow> 'a \<Rightarrow> 'a list \<Rightarrow> 'a list" where
  "splice_in start x xs =
     (let n = int (length xs);
          i = nat (if start < 0 then max (n + start) 0 else min start n)
      in take i xs @ [x] @ drop i xs)"

text \<open>The elements of an array; on anything else the array method called is missing.\<close>

definition array_elems :: "store \<Rightarrow> val \<Rightarrow> error + val list" where
  "array_elems st v =
     (case v of
        Ref a \<Rightarrow> (case elems (objs st a) of Some xs \<Rightarrow> Inr xs | None \<Rightarrow> Inl TypeError)
      | _ \<Rightarrow> Inl TypeError)"

text \<open>
  The manual splice, which the older revision reaches: \<open>child.object.parent =
  parent.object\<close>, then \<open>parent.object.children.splice(start, 0, child.object)\<close>,
  then the event.
\<close>

definition splice_child :: "lib \<Rightarrow> state \<Rightarrow> nat \<Rightarrow> nat \<Rightarrow> int \<Rightarrow> result" where
  "splice_child L s par child objectIndex =
     (case put s (object (nodes s child)) ''parent'' (object (nodes s par)) of
        Inl e \<Rightarrow> Inl e
      | Inr s1 \<Rightarrow>
          (case getv (mem s1) (object (nodes s1 par)) ''children'' of
             Inl e \<Rightarrow> Inl (e, s1)
           | Inr cv \<Rightarrow>
               (case array_elems (mem s1) cv of
                  Inl e \<Rightarrow> Inl (e, s1)
                | Inr cs \<Rightarrow>
                    (case cv of
                       Ref ca \<Rightarrow>
                         (let st2 = (mem s1)\<lparr>objs := (objs (mem s1))
                                (ca := (objs (mem s1) ca)\<lparr>elems :=
                                   Some (splice_in objectIndex (object (nodes s1 child)) cs)\<rparr>)\<rparr>
                          in
                            (case alloc st2 (plain [''type'' \<mapsto> Str ''added'']) of
                               (ev, st3) \<Rightarrow>
                                 callm L (s1\<lparr>mem := st3\<rparr>) (object (nodes s1 child))
                                   ''dispatchEvent'' [Ref ev]))
                     | _ \<Rightarrow> Inl (TypeError, s1)))))"

text \<open>
  The branch of \<open>insertNode\<close> for two objects of the graph. When the parent's
  object holds \<open>beforeChild\<close>'s object, the code goes on with
  \<open>this.removeNode(parent, beforeChild!)\<close>. \<open>insertNode\<close> never runs with the
  host as its receiver: \<open>createRenderer\<close> of solid-js/universal takes the functions
  out of the object it is handed and calls them bare, and the module exports
  \<open>insertNode\<close> taken out of \<open>renderer\<close>, which has no \<open>removeNode\<close>. So
  this statement throws a TypeError, and the splice written after it is never reached.
  Otherwise the object is added with \<open>add\<close>.
\<close>

definition graph_insert :: "lib \<Rightarrow> state \<Rightarrow> nat \<Rightarrow> nat \<Rightarrow> nat option \<Rightarrow> result" where
  "graph_insert L s par child beforeChild =
     (case getv (mem s) (object (nodes s par)) ''children'' of
        Inl e \<Rightarrow> Inl (e, s)
      | Inr cv \<Rightarrow>
          (case array_elems (mem s) cv of
             Inl e \<Rightarrow> Inl (e, s)
           | Inr cs \<Rightarrow>
               (let objectIndex =
                      indexOf cs (case beforeChild of
                                    Some b \<Rightarrow> object (nodes s b) | None \<Rightarrow> Undefined)
                in
                  if objectIndex \<noteq> -1 then Inl (TypeError, s)
                  else callm L s (object (nodes s par)) ''add'' [object (nodes s child)])))"

text \<open>The rest of \<open>insertNode\<close>: the node links, then the attach slot or the graph.\<close>

definition link :: "lib \<Rightarrow> state \<Rightarrow> nat \<Rightarrow> nat \<Rightarrow> nat option \<Rightarrow> result" where
  "link L s par child beforeChild =
     (let s1 = upd_node s child (\<lambda>nd. nd\<lparr>parent := Some par\<rparr>);
          s2 = upd_node s1 par (\<lambda>nd. nd\<lparr>children := children nd @ [child]\<rparr>)
      in
        if truthy (prop_of (nodes s2 child) ''attach'') then attach L s2 par child
        else if instanceof (mem s2) (object (nodes s2 par)) ''Object3D'' \<and>
                instanceof (mem s2) (object (nodes s2 child)) ''Object3D''
        then graph_insert L s2 par child beforeChild
        else Inr s2)"

text \<open>
  The older revision of the file (part_000) links differently: it asks for the child's
  object only, takes the splice whenever \<open>beforeChild\<close> is given, and looks the
  position up with \<open>parent.children.indexOf(beforeChild.object)\<close>, in the array of
  nodes, where an object is never found: the start of the splice is \<open>-1\<close>.
\<close>

definition link_r0 :: "lib \<Rightarrow> state \<Rightarrow> nat \<Rightarrow> nat \<Rightarrow> nat option \<Rightarrow> result" where
  "link_r0 L s par child beforeChild =
     (let s1 = upd_node s child (\<lambda>nd. nd\<lparr>parent := Some par\<rparr>);
          s2 = upd_node s1 par (\<lambda>nd. nd\<lparr>children := children nd @ [child]\<rparr>)
      in
        if truthy (prop_of (nodes s2 child) ''attach'') then attach L s2 par child
        else if instanceof (mem s2) (object (nodes s2 child)) ''Object3D''
        then
          (case beforeChild of
             Some b \<Rightarrow> splice_child L s2 par child (-1)
           | None \<Rightarrow> callm L s2 (object (nodes s2 par)) ''add'' [object (nodes s2 child)])
        else Inr s2)"

definition insertNode :: "lib \<Rightarrow> (string \<rightharpoonup> val) \<Rightarrow> state \<Rightarrow> nat \<Rightarrow> nat \<Rightarrow> nat option \<Rightarrow> result" where
  "insertNode L catalogue s par child beforeChild =
     (if \<not> truthy (object (nodes s child)) then
        (case commit L catalogue s child of
           Inl e \<Rightarrow> Inl e
         | Inr s1 \<Rightarrow> link L s1 par child beforeChild)
      else link L s par child beforeChild)"

definition getParentNode :: "state \<Rightarrow> nat \<Rightarrow> nat option" where
  "getParentNode s n = parent (nodes s n)"

definition getFirstChild :: "state \<Rightarrow> nat \<Rightarrow> nat option" where
  "getFirstChild s n = (case children (nodes s n) of [] \<Rightarrow> None | c # cs \<Rightarrow> Some c)"

text \<open>\<open>xs[i]\<close> on an array of nodes, \<open>undefined\<close> out of range.\<close>

definition at_index :: "'a list \<Rightarrow> int \<Rightarrow> 'a option" where
  "at_index xs i = (if 0 \<le> i \<and> nat i < length xs then Some (xs ! nat i) else None)"

definition getNextSibling :: "state \<Rightarrow> nat \<Rightarrow> error + nat option" where
  "getNextSibling s n =
     (case parent (nodes s n) of
        None \<Rightarrow> Inl TypeError
      | Some p \<Rightarrow>
          (let index = indexOf (children (nodes s p)) n
           in Inr (at_index (children (nodes s n)) (index + 1))))"


section \<open>A graph library to run the host on\<close>

text \<open>
  The renderer imports three.js. To run the host on concrete scenes the library parameter
  is instantiated with the part of \<open>Object3D\<close> the host calls, after three.js:
  \<open>add\<close> (function 0) unhooks the object from its old parent, sets \<open>parent\<close>
  and pushes the object onto \<open>children\<close>; \<open>remove\<close> (function 1) takes the
  object off \<open>children\<close> and clears \<open>parent\<close>; \<open>dispatchEvent\<close> (function 2),
  \<open>dispose\<close> (function 3) and the settors (functions 4 to 6) leave the store alone.
  Constructor 7 builds an \<open>Object3D\<close> with an empty \<open>children\<close> array;
  constructor 8 throws, as that of a renderer does where no graphics context is to be had.
  The names of the examples are ASCII, and \<open>toUpperCase\<close> is given on the letters a
  to z. \<open>Object.prototype\<close> is object 111; what a plain object inherits are the
  functions 100 to 110, of which only \<open>Object\<close> (function 100) is a constructor, and
  \<open>__proto__\<close>.
\<close>

definition fn :: "nat \<Rightarrow> obj" where
  "fn i = \<lparr>ctor = ''Function'', isa = [], callable = Some i, elems = None, slots = Map.empty\<rparr>"

definition without :: "nat \<Rightarrow> 'a list \<Rightarrow> 'a list" where
  "without i xs = take i xs @ drop (Suc i) xs"

definition set_elems :: "store \<Rightarrow> val \<Rightarrow> val list \<Rightarrow> store" where
  "set_elems st v xs =
     (case v of Ref a \<Rightarrow> st\<lparr>objs := (objs st)(a := (objs st a)\<lparr>elems := Some xs\<rparr>)\<rparr> | _ \<Rightarrow> st)"

definition Object3D_remove :: "store \<Rightarrow> val \<Rightarrow> val \<Rightarrow> store" where
  "Object3D_remove st this x =
     (case array_elems st (getp st this ''children'') of
        Inl e \<Rightarrow> st
      | Inr cs \<Rightarrow>
          (let index = indexOf cs x in
           if index \<noteq> -1 then
             (case setv st x ''parent'' Null of
                Inl e \<Rightarrow> st
              | Inr st1 \<Rightarrow> set_elems st1 (getp st1 this ''children'') (without (nat index) cs))
           else st))"

definition Object3D_add :: "store \<Rightarrow> val \<Rightarrow> val \<Rightarrow> store" where
  "Object3D_add st this x =
     (if x = this \<or> \<not> instanceof st x ''Object3D'' then st
      else
        (let st1 = (if getp st x ''parent'' \<noteq> Null
                    then Object3D_remove st (getp st x ''parent'') x else st)
         in
           (case setv st1 x ''parent'' this of
              Inl e \<Rightarrow> st1
            | Inr st2 \<Rightarrow>
                (case array_elems st2 (getp st2 this ''children'') of
                   Inl e \<Rightarrow> st2
                 | Inr cs \<Rightarrow> set_elems st2 (getp st2 this ''children'') (cs @ [x])))))"

definition object3D :: "val \<Rightarrow> val \<Rightarrow> obj" where
  "object3D cs par =
     \<lparr>ctor = ''Object3D'', isa = [''Object3D''], callable = None, elems = None,
      slots = [''children'' \<mapsto> cs, ''parent'' \<mapsto> par, ''add'' \<mapsto> Ref 0, ''remove'' \<mapsto> Ref 1,
               ''dispatchEvent'' \<mapsto> Ref 2, ''dispose'' \<mapsto> Ref 3]\<rparr>"

definition upper_ascii :: "char \<Rightarrow> char" where
  "upper_ascii c =
     (case map_of (zip ''abcdefghijklmnopqrstuvwxyz'' ''ABCDEFGHIJKLMNOPQRSTUVWXYZ'') c of
        Some u \<Rightarrow> u
      | None \<Rightarrow> c)"

definition Object_prototype :: "string \<rightharpoonup> val" where
  "Object_prototype =
     [''constructor'' \<mapsto> Ref 100, ''hasOwnProperty'' \<mapsto> Ref 101,
      ''isPrototypeOf'' \<mapsto> Ref 102, ''propertyIsEnumerable'' \<mapsto> Ref 103,
      ''toLocaleString'' \<mapsto> Ref 104, ''toString'' \<mapsto> Ref 105, ''valueOf'' \<mapsto> Ref 106,
      ''__defineGetter__'' \<mapsto> Ref 107, ''__defineSetter__'' \<mapsto> Ref 108,
      ''__lookupGetter__'' \<mapsto> Ref 109, ''__lookupSetter__'' \<mapsto> Ref 110,
      ''__proto__'' \<mapsto> Ref 111]"

definition three :: lib where
  "three =
     \<lparr>invoke = (\<lambda>i this args st.
        if i = 0 then Inr (this, Object3D_add st this (case args of [] \<Rightarrow> Undefined | x # xs \<Rightarrow> x))
        else if i = 1 then Inr (this, Object3D_remove st this (case args of [] \<Rightarrow> Undefined | x # xs \<Rightarrow> x))
        else Inr (Undefined, st)),
      construct = (\<lambda>i args st.
        if i = 7 then (case alloc st (array []) of (ca, st1) \<Rightarrow> Inr (object3D (Ref ca) Null, st1))
        else if i = 8 then Inl (Error ''Error creating WebGL context.'', st)
        else if i = 100 then Inr (plain Map.empty, st)
        else Inl (TypeError, st)),
      toUpperCase = map upper_ascii,
      inherited = Object_prototype\<rparr>"

text \<open>
  The store every example starts from: the library's functions at addresses 0 to 8, the
  inherited functions at addresses 100 to 110.
\<close>

definition base_objs :: "addr \<Rightarrow> obj" where
  "base_objs = (\<lambda>a. if a < 9 \<or> (100 \<le> a \<and> a < 111) then fn a else plain Map.empty)"

definition blank :: node where
  "blank = \<lparr>type = ''container'', parent = None, children = [], object = Null, props = []\<rparr>"

section \<open>Outcomes, the call log and what a node keeps\<close>

text \<open>\<open>ends r s'\<close>: the operation left the state \<open>s'\<close>, whether it returned or threw.\<close>

definition ends :: "result \<Rightarrow> state \<Rightarrow> bool" where
  "ends r s' = (case r of Inl (e, s) \<Rightarrow> s' = s | Inr s \<Rightarrow> s' = s)"

fun is_New :: "event \<Rightarrow> bool" where
  "is_New (New i args) = True"
| "is_New (Call i this args) = False"

text \<open>The constructor calls made so far.\<close>

definition news :: "state \<Rightarrow> event list" where
  "news s = filter is_New (calls s)"

text \<open>The part of a node that only the commit and \<open>setProperty\<close> write.\<close>

definition static :: "state \<Rightarrow> nat \<Rightarrow> string \<times> val \<times> (string \<times> val) list" where
  "static s n = (type (nodes s n), object (nodes s n), props (nodes s n))"

text \<open>\<open>attach(parent, child)\<close> and then \<open>detach(parent, child)\<close>.\<close>

definition attach_detach :: "lib \<Rightarrow> state \<Rightarrow> nat \<Rightarrow> nat \<Rightarrow> result" where
  "attach_detach L s par child =
     (case attach L s par child of Inl e \<Rightarrow> Inl e | Inr s1 \<Rightarrow> detach L s1 par child)"

text \<open>The value of a slot in the state an operation returned.\<close>

definition slot_after :: "result \<Rightarrow> val \<Rightarrow> string \<Rightarrow> val option" where
  "slot_after r v k = (case r of Inl e \<Rightarrow> None | Inr s \<Rightarrow> Some (getp (mem s) v k))"

text \<open>A key that names a plain slot of any object: not an array index, not \<open>length\<close>.\<close>

definition slot_key :: "string \<Rightarrow> bool" where
  "slot_key k = (parse_index k = None \<and> k \<noteq> ''length'')"

section \<open>The priority of the applier in the words of the specification\<close>

text \<open>
  The priority of the property applier as the specification words it (4.2, steps 2 to 6),
  to compare \<open>applyProp\<close> with. "The declared value is an instance of the exact same
  constructed type as the target" is a condition here, false for a value that has no
  constructor.
\<close>

definition same_constructor :: "store \<Rightarrow> val \<Rightarrow> val \<Rightarrow> bool" where
  "same_constructor st target v =
     (case constructor_of st v of
        Inl e \<Rightarrow> False
      | Inr c \<Rightarrow> constructor_of st target = Inr c)"

definition spec_applyProp :: "lib \<Rightarrow> state \<Rightarrow> val \<Rightarrow> string \<Rightarrow> val \<Rightarrow> result" where
  "spec_applyProp L s ob prop v =
     (case resolve (mem s) ob prop of
        Inl e \<Rightarrow> Inl (e, s)
      | Inr (root, key, target) \<Rightarrow>
          if \<not> has_settor (mem s) target then put s root key v
          else if truthy (getp (mem s) target ''copy'') \<and> same_constructor (mem s) target v
          then callm L s target ''copy'' [v]
          else if isArray (mem s) v
          then callm L s target ''set'' (case array_elems (mem s) v of Inr vs \<Rightarrow> vs | Inl e \<Rightarrow> [])
          else if \<not> instanceof (mem s) target ''Color'' \<and> truthy (getp (mem s) target ''setScalar'')
          then callm L s target ''setScalar'' [v]
          else callm L s target ''set'' [v])"

text \<open>
  Where \<open>applyProp\<close> throws by itself: the target has a settor and a \<open>copy\<close>, and the
  value is \<open>undefined\<close> or \<open>null\<close>, whose \<open>constructor\<close> cannot be read.
\<close>

definition constructor_unreadable :: "store \<Rightarrow> val \<Rightarrow> string \<Rightarrow> val \<Rightarrow> bool" where
  "constructor_unreadable st ob prop v =
     (case resolve st ob prop of
        Inl e \<Rightarrow> False
      | Inr (root, key, target) \<Rightarrow>
          has_settor st target \<and> truthy (getp st target ''copy'') \<and> nullish v)"

section \<open>Example states\<close>

text \<open>A root whose \<open>a.b\<close> has a settor (function 4) and whose \<open>a.c\<close> is a number.\<close>

definition pierced :: store where
  "pierced =
     \<lparr>objs = base_objs
        (10 := plain [''a'' \<mapsto> Ref 11],
         11 := plain [''b'' \<mapsto> Ref 12, ''c'' \<mapsto> Num 7],
         12 := plain [''set'' \<mapsto> Ref 4]),
      fresh = 13\<rparr>"

text \<open>The same store as the memory of a host state with no nodes.\<close>

definition nested :: state where
  "nested = \<lparr>mem = pierced, nodes = (\<lambda>n. blank), nodeCount = 0, calls = []\<rparr>"

text \<open>
  A scene: the container (node 0, object 10) holds two meshes (nodes 1 and 2, objects 12
  and 14, in this order in the graph), the second with \<open>dispose: null\<close>; node 3 is
  created and not yet committed; node 4 is committed (object 17) and in no tree yet.
\<close>

definition scene :: state where
  "scene =
     \<lparr>mem = \<lparr>objs = base_objs
              (10 := object3D (Ref 11) Null, 11 := array [Ref 12, Ref 14],
               12 := object3D (Ref 13) (Ref 10), 13 := array [],
               14 := object3D (Ref 15) (Ref 10), 15 := array [],
               16 := array [],
               17 := object3D (Ref 18) Null, 18 := array []),
            fresh = 19\<rparr>,
      nodes = (\<lambda>n. blank)
              (0 := blank\<lparr>children := [1, 2], object := Ref 10\<rparr>,
               1 := \<lparr>type = ''mesh'', parent = Some 0, children = [], object = Ref 12, props = []\<rparr>,
               2 := \<lparr>type = ''mesh'', parent = Some 0, children = [], object = Ref 14,
                     props = [(''dispose'', Null)]\<rparr>,
               3 := \<lparr>type = ''object3D'', parent = None, children = [], object = Null,
                     props = [(''args'', Ref 16)]\<rparr>,
               4 := \<lparr>type = ''group'', parent = None, children = [], object = Ref 17, props = []\<rparr>),
      nodeCount = 5, calls = []\<rparr>"

text \<open>The catalogue after \<open>extend({ Object3D })\<close>: constructor 7.\<close>

definition registered :: "string \<rightharpoonup> val" where
  "registered = [''Object3D'' \<mapsto> Ref 7]"

text \<open>
  An object (10) whose \<open>position\<close> (11) is a vector with \<open>set\<close>, \<open>copy\<close> and
  \<open>setScalar\<close> (functions 4 to 6), whose \<open>self\<close> is the object itself, and whose
  \<open>args\<close> slot holds 1.
\<close>

definition vector :: obj where
  "vector =
     \<lparr>ctor = ''Vector3'', isa = [], callable = None, elems = None,
      slots = [''set'' \<mapsto> Ref 4, ''copy'' \<mapsto> Ref 5, ''setScalar'' \<mapsto> Ref 6]\<rparr>"

definition live :: state where
  "live =
     \<lparr>mem = \<lparr>objs = base_objs
              (10 := plain [''position'' \<mapsto> Ref 11, ''self'' \<mapsto> Ref 10, ''args'' \<mapsto> Num 1],
               11 := vector),
            fresh = 12\<rparr>,
      nodes = (\<lambda>n. blank), nodeCount = 0, calls = []\<rparr>"

text \<open>
  An owner (node 0, object 10) with an empty \<open>attributes\<close> (object 11) and a \<open>map\<close>
  slot holding 7, and three children: node 1 (object 12, which has a \<open>set\<close>) attaches
  to \<open>attributes-position\<close>, node 2 (object 13) attaches to \<open>map\<close>, node 3
  (object 14) attaches to \<open>attributes-uv\<close>.
\<close>

definition owner :: state where
  "owner =
     \<lparr>mem = \<lparr>objs = base_objs
              (10 := plain [''attributes'' \<mapsto> Ref 11, ''map'' \<mapsto> Num 7],
               11 := plain Map.empty,
               12 := plain [''set'' \<mapsto> Ref 4],
               13 := plain Map.empty,
               14 := plain Map.empty),
            fresh = 15\<rparr>,
      nodes = (\<lambda>n. blank)
              (0 := blank\<lparr>object := Ref 10\<rparr>,
               1 := \<lparr>type = ''bufferAttribute'', parent = None, children = [], object = Ref 12,
                     props = [(''attach'', Str ''attributes-position'')]\<rparr>,
               2 := \<lparr>type = ''texture'', parent = None, children = [], object = Ref 13,
                     props = [(''attach'', Str ''map'')]\<rparr>,
               3 := \<lparr>type = ''bufferAttribute'', parent = None, children = [], object = Ref 14,
                     props = [(''attach'', Str ''attributes-uv'')]\<rparr>),
      nodeCount = 4, calls = []\<rparr>"

section \<open>Lemmas: what each operation leaves alone\<close>

lemma get_char_name: "parse_index k = None \<Longrightarrow> k \<noteq> ''length'' \<Longrightarrow> get_char str k = Undefined"
  by (simp add: get_char_def)

lemma ends_iff: "ends r s' = (r = Inr s' \<or> (\<exists>e. r = Inl (e, s')))"
  by (auto simp: ends_def split: sum.splits prod.splits)

lemma ends_Inr: "r = Inr s' \<Longrightarrow> ends r s'"
  by (simp add: ends_iff)

lemma ends_Inl: "r = Inl (e, s') \<Longrightarrow> ends r s'"
  by (simp add: ends_iff)

lemma ends_simps [simp]: "ends (Inr s) s' = (s' = s)" "ends (Inl (e, s)) s' = (s' = s)"
  by (auto simp: ends_iff)

lemma put_frame: "ends (put s v k x) s' \<Longrightarrow> nodes s' = nodes s \<and> calls s' = calls s"
  by (auto simp: put_def split: sum.splits)

lemma call_Inr:
  "call L s f this args = Inr (r, s') \<Longrightarrow> nodes s' = nodes s \<and> news s' = news s"
  by (auto simp: call_def news_def Let_def split: val.splits option.splits sum.splits prod.splits)

lemma call_Inl:
  "call L s f this args = Inl (e, s') \<Longrightarrow> nodes s' = nodes s \<and> news s' = news s"
  by (auto simp: call_def news_def Let_def split: val.splits option.splits sum.splits prod.splits)

lemma callm_frame:
  "ends (callm L s t m args) s' \<Longrightarrow> nodes s' = nodes s \<and> news s' = news s"
  by (auto simp: callm_def ends_iff split: sum.splits prod.splits dest: call_Inr call_Inl)

lemmas put_Inr = put_frame[OF ends_Inr] and put_Inl = put_frame[OF ends_Inl]
lemmas callm_Inr = callm_frame[OF ends_Inr] and callm_Inl = callm_frame[OF ends_Inl]

lemma attach_frame:
  "ends (attach L s par child) s' \<Longrightarrow> nodes s' = nodes s \<and> news s' = news s"
  unfolding attach_def ends_iff
  by (auto simp: news_def alloc_def split: val.splits sum.splits prod.splits if_splits
      dest!: put_Inr put_Inl call_Inr call_Inl)

lemma detach_frame:
  "ends (detach L s par child) s' \<Longrightarrow> nodes s' = nodes s \<and> news s' = news s"
  unfolding detach_def ends_iff
  by (auto simp: news_def split: val.splits sum.splits prod.splits if_splits
      dest!: put_Inr put_Inl call_Inr call_Inl)


lemmas attach_Inr = attach_frame[OF ends_Inr] and attach_Inl = attach_frame[OF ends_Inl]
lemmas detach_Inr = detach_frame[OF ends_Inr] and detach_Inl = detach_frame[OF ends_Inl]

lemma applyProp_frame:
  "ends (applyProp L s ob prop v) s' \<Longrightarrow> nodes s' = nodes s \<and> news s' = news s"
  unfolding applyProp_def ends_iff
  by (auto simp: news_def split: sum.splits prod.splits if_splits bool.splits
      dest!: put_Inr put_Inl callm_Inr callm_Inl)

lemmas applyProp_Inr = applyProp_frame[OF ends_Inr] and applyProp_Inl = applyProp_frame[OF ends_Inl]

lemma applyProps_frame:
  "ends (applyProps L s ob ps) s' \<Longrightarrow> nodes s' = nodes s \<and> news s' = news s"
proof (induction ps arbitrary: s)
  case Nil
  then show ?case by simp
next
  case (Cons p ps)
  obtain k v where p: "p = (k, v)" by (cases p)
  show ?case
  proof (cases "k \<in> set RESERVED_PROPS")
    case True
    with Cons p show ?thesis by simp
  next
    case False
    show ?thesis
    proof (cases "applyProp L s ob k v")
      case (Inl es)
      with Cons.prems p False show ?thesis
        by (cases es) (auto dest!: applyProp_Inl)
    next
      case (Inr s1)
      with Cons.prems p False have "ends (applyProps L s1 ob ps) s'" by simp
      from Cons.IH[OF this] applyProp_Inr[OF Inr] show ?thesis by simp
    qed
  qed
qed

lemmas applyProps_Inr = applyProps_frame[OF ends_Inr] and applyProps_Inl = applyProps_frame[OF ends_Inl]

lemma static_nodes: "nodes s' = nodes s \<Longrightarrow> static s' = static s"
  by (simp add: static_def fun_eq_iff)

lemma static_unlink: "static (unlink s par child) = static s"
  by (auto simp: unlink_def upd_node_def static_def Let_def fun_eq_iff)

lemma unlink_other: "mem (unlink s par child) = mem s \<and> calls (unlink s par child) = calls s"
  by (simp add: unlink_def upd_node_def Let_def)

lemma remove_object_frame:
  "ends (remove_object L s par child) s' \<Longrightarrow> nodes s' = nodes s \<and> news s' = news s"
  unfolding remove_object_def ends_iff
  by (auto split: if_splits dest!: detach_Inr detach_Inl callm_Inr callm_Inl)

lemma dispose_object_frame:
  "ends (dispose_object L s child) s' \<Longrightarrow> nodes s' = nodes s \<and> news s' = news s"
  unfolding dispose_object_def ends_iff
  by (auto split: if_splits sum.splits prod.splits dest!: call_Inr call_Inl)

lemmas remove_object_Inr = remove_object_frame[OF ends_Inr]
  and remove_object_Inl = remove_object_frame[OF ends_Inl]
lemmas dispose_object_Inr = dispose_object_frame[OF ends_Inr]
  and dispose_object_Inl = dispose_object_frame[OF ends_Inl]

lemma removeNode_nodes:
  "ends (removeNode L s par child) s' \<Longrightarrow> nodes s' = nodes (unlink s par child)"
  unfolding removeNode_def ends_iff
  by (auto split: sum.splits
      dest!: remove_object_Inr remove_object_Inl dispose_object_Inr dispose_object_Inl)

lemma removeNode_news:
  "ends (removeNode L s par child) s' \<Longrightarrow> news s' = news s"
  unfolding removeNode_def ends_iff
  by (auto simp: news_def unlink_other split: sum.splits
      dest!: remove_object_Inr remove_object_Inl dispose_object_Inr dispose_object_Inl)

lemma removeNode_frame:
  "ends (removeNode L s par child) s' \<Longrightarrow> static s' = static s \<and> news s' = news s"
  using removeNode_nodes[of L s par child s'] removeNode_news[of L s par child s']
    static_nodes[of s' "unlink s par child"] static_unlink[of s par child]
  by simp

lemmas removeNode_Inr = removeNode_frame[OF ends_Inr] and removeNode_Inl = removeNode_frame[OF ends_Inl]

lemma static_upd_parent: "static (upd_node s n (\<lambda>nd. nd\<lparr>parent := x\<rparr>)) = static s"
  by (auto simp: upd_node_def static_def fun_eq_iff)

lemma static_upd_children: "static (upd_node s n (\<lambda>nd. nd\<lparr>children := f nd\<rparr>)) = static s"
  by (auto simp: upd_node_def static_def fun_eq_iff)

lemma upd_node_other [simp]: "mem (upd_node s n f) = mem s" "calls (upd_node s n f) = calls s"
  "nodeCount (upd_node s n f) = nodeCount s"
  by (simp_all add: upd_node_def)

lemma news_upd_node [simp]: "news (upd_node s n f) = news s"
  by (simp add: news_def)


lemma graph_insert_frame:
  "ends (graph_insert L s par child bc) s' \<Longrightarrow> static s' = static s \<and> news s' = news s"
proof -
  assume "ends (graph_insert L s par child bc) s'"
  then have "s' = s \<or> ends (callm L s (object (nodes s par)) ''add'' [object (nodes s child)]) s'"
    unfolding graph_insert_def by (auto simp: Let_def split: sum.splits if_splits)
  then show ?thesis
    using callm_frame[of L s "object (nodes s par)" "''add''" "[object (nodes s child)]" s']
      static_nodes[of s' s]
    by auto
qed

lemma link_frame:
  "ends (link L s par child bc) s' \<Longrightarrow> static s' = static s \<and> news s' = news s"
proof -
  define s2 where "s2 = upd_node (upd_node s child (\<lambda>nd. nd\<lparr>parent := Some par\<rparr>)) par
      (\<lambda>nd. nd\<lparr>children := children nd @ [child]\<rparr>)"
  have s2: "static s2 = static s" "news s2 = news s"
    by (simp_all add: s2_def static_upd_parent static_upd_children)
  assume "ends (link L s par child bc) s'"
  then have "ends (attach L s2 par child) s' \<or> ends (graph_insert L s2 par child bc) s' \<or> s' = s2"
    unfolding link_def Let_def s2_def[symmetric] by (simp split: if_splits)
  then have "static s' = static s2 \<and> news s' = news s2"
    using attach_frame[of L s2 par child s'] graph_insert_frame[of L s2 par child bc s']
      static_nodes[of s' s2]
    by auto
  with s2 show ?thesis by simp
qed



lemma new_Inr:
  "new L s target args = Inr (a, s') \<Longrightarrow>
     nodes s' = nodes s \<and> (\<exists>i. target \<noteq> Undefined \<and> news s' = news s @ [New i args])"
  by (auto simp: new_def news_def Let_def alloc_def split: val.splits option.splits sum.splits prod.splits)

lemma new_Inl:
  "new L s target args = Inl (e, s') \<Longrightarrow> nodes s' = nodes s"
  by (auto simp: new_def Let_def alloc_def split: val.splits option.splits sum.splits prod.splits)

section \<open>The path resolver: the root returned for a nested key\<close>

lemma reduce_append:
  "reduce st (xs @ ys) acc =
     (case reduce st xs acc of Inl e \<Rightarrow> Inl e | Inr v \<Rightarrow> reduce st ys v)"
  by (induction xs arbitrary: acc) (auto split: sum.splits)

lemma split_dash_ne: "split_dash k \<noteq> []"
  by (induction k) (auto split: list.splits)

lemma reduce_ne_root: "ks \<noteq> [] \<Longrightarrow> reduce st ks root = Inr t \<Longrightarrow> \<not> nullish root"
  by (cases ks) (auto simp: getv_def split: if_splits sum.splits)

lemmas eval_store =
  getv_def getp_def nullish_def get_prop_def set_prop_def setv_def delv_def plain_def array_def
  fn_def base_objs_def has_settor_def truthy_def parse_index_def is_digit_def isArray_def
  instanceof_def is_function_def alloc_def array_elems_def

text \<open>
  C6. For a key with a separator whose walk from the root reaches a leaf target: the
  key returned is the last segment and the target is the leaf's value. When the
  target has no settor, the root returned is the parent object of the leaf, the object
  the walk over all segments but the last reaches. When the target has a settor, the
  root returned is the root that was passed in, unchanged: it is not the object that
  holds the leaf.
\<close>

theorem resolve_nested:
  assumes dash: "CHR ''-'' \<in> set key"
    and walk: "reduce st (split_dash key) root = Inr target"
  shows "\<exists>leafParent.
           reduce st (butlast (split_dash key)) root = Inr leafParent \<and>
           getv st leafParent (last (split_dash key)) = Inr target \<and>
           resolve st root key =
             Inr (if has_settor st target then root else leafParent, last (split_dash key), target)"
proof -
  let ?chain = "split_dash key"
  have ne: "?chain \<noteq> []" by (rule split_dash_ne)
  then have dec: "?chain = butlast ?chain @ [last ?chain]" by simp
  from walk have "(case reduce st (butlast ?chain) root of Inl e \<Rightarrow> Inl e
      | Inr v \<Rightarrow> reduce st [last ?chain] v) = Inr target"
    using reduce_append[of st "butlast ?chain" "[last ?chain]" root] dec by simp
  then obtain p where p: "reduce st (butlast ?chain) root = Inr p"
    and leaf: "getv st p (last ?chain) = Inr target"
    by (auto split: sum.splits)
  have "\<not> nullish root" using reduce_ne_root[OF ne walk] .
  then have g: "getv st root key = Inr (getp st root key)" by (simp add: getv_def)
  have "resolve st root key = Inr (if has_settor st target then root else p, last ?chain, target)"
    using dash walk p g by (simp add: resolve_def Let_def)
  with p leaf show ?thesis by blast
qed

theorem resolve_nested_witness:
  "CHR ''-'' \<in> set ''a-c'' \<and> reduce pierced (split_dash ''a-c'') (Ref 10) = Inr (Num 7) \<and>
   (\<exists>leafParent.
      reduce pierced (butlast (split_dash ''a-c'')) (Ref 10) = Inr leafParent \<and>
      getv pierced leafParent (last (split_dash ''a-c'')) = Inr (Num 7) \<and>
      resolve pierced (Ref 10) ''a-c'' =
        Inr (if has_settor pierced (Num 7) then Ref 10 else leafParent, last (split_dash ''a-c''), Num 7))"
proof -
  have d: "CHR ''-'' \<in> set ''a-c''" by simp
  have w: "reduce pierced (split_dash ''a-c'') (Ref 10) = Inr (Num 7)"
    by (simp add: pierced_def eval_store)
  from d w resolve_nested[OF d w] show ?thesis by blast
qed

text \<open>
  With a settor on the leaf \<open>a.b\<close>, the root returned for \<open>a-b\<close> is the root passed
  in (object 10), while the object that holds the leaf is \<open>root.a\<close> (object 11); the
  root returned has no \<open>b\<close> at all.
\<close>

theorem resolve_settor_root_counterexample:
  "has_settor pierced (Ref 12) \<and>
   reduce pierced (split_dash ''a-b'') (Ref 10) = Inr (Ref 12) \<and>
   reduce pierced (butlast (split_dash ''a-b'')) (Ref 10) = Inr (Ref 11) \<and>
   getv pierced (Ref 11) ''b'' = Inr (Ref 12) \<and>
   resolve pierced (Ref 10) ''a-b'' = Inr (Ref 10, ''b'', Ref 12) \<and>
   getv pierced (Ref 10) ''b'' = Inr Undefined"
  by (simp add: pierced_def resolve_def eval_store)

section \<open>The errors of the commit\<close>

lemma spread_Inl: "spread st v = Inl e \<Longrightarrow> e = TypeError"
  by (auto simp: spread_def split: val.splits option.splits)

lemma spread_args_Inl: "spread_args s child = Inl e \<Longrightarrow> e = TypeError"
  by (auto simp: spread_args_def Let_def split: if_splits dest: spread_Inl)

lemma new_not_function: "\<not> is_function (mem s) target \<Longrightarrow> new L s target args = Inl (TypeError, s)"
  by (auto simp: new_def is_function_def split: val.splits option.splits)

lemma new_function:
  "callable (objs (mem s) f) = Some i \<Longrightarrow>
   new L s (Ref f) args =
     (case construct L i args (mem s) of
        Inl (e, st) \<Rightarrow> Inl (e, s\<lparr>calls := calls s @ [New i args], mem := st\<rparr>)
      | Inr (ob, st) \<Rightarrow>
          Inr (fresh st, s\<lparr>calls := calls s @ [New i args],
                           mem := st\<lparr>objs := (objs st)(fresh st := ob), fresh := Suc (fresh st)\<rparr>\<rparr>))"
  by (simp add: new_def Let_def alloc_def split: sum.splits prod.splits)

lemma function_cases:
  "is_function st target \<Longrightarrow> \<exists>f i. target = Ref f \<and> callable (objs st f) = Some i"
  by (cases target) (auto simp: is_function_def)

text \<open>Where the making of the object fails, and with what.\<close>

lemma create_object_Inl:
  assumes c: "create_object L catalogue s child = Inl (e, s')"
  shows "type (nodes s child) = ''primitive'' \<and> \<not> truthy (prop_of (nodes s child) ''object'') \<or>
         type (nodes s child) \<noteq> ''primitive'' \<and> \<not> truthy (entry L catalogue s child) \<or>
         type (nodes s child) \<noteq> ''primitive'' \<and> truthy (entry L catalogue s child) \<and>
           (spread_args s child = Inl TypeError \<or> \<not> is_function (mem s) (entry L catalogue s child)) \<or>
         (\<exists>f i vs st. entry L catalogue s child = Ref f \<and> callable (objs (mem s) f) = Some i \<and>
            spread_args s child = Inr vs \<and> construct L i vs (mem s) = Inl (e, st))"
proof (cases "type (nodes s child) = ''primitive''")
  case True
  with c show ?thesis by (auto simp: create_object_def split: if_splits)
next
  case np: False
  show ?thesis
  proof (cases "truthy (entry L catalogue s child)")
    case False
    with np show ?thesis by simp
  next
    case t: True
    show ?thesis
    proof (cases "spread_args s child")
      case (Inl e0)
      with spread_args_Inl[OF Inl] np t show ?thesis by simp
    next
      case (Inr vs)
      show ?thesis
      proof (cases "is_function (mem s) (entry L catalogue s child)")
        case False
        with np t show ?thesis by simp
      next
        case True
        from function_cases[OF True] obtain f i where
          f: "entry L catalogue s child = Ref f" "callable (objs (mem s) f) = Some i" by blast
        from c np t Inr f have "\<exists>st. construct L i vs (mem s) = Inl (e, st)"
          by (auto simp: create_object_def Let_def new_function split: sum.splits prod.splits)
        with f Inr show ?thesis by blast
      qed
    qed
  qed
qed

lemma create_object_Inr:
  "create_object L catalogue s child = Inr s1 \<Longrightarrow>
     truthy (object (nodes s1 child)) \<and>
     type (nodes s1 child) = type (nodes s child) \<and>
     props (nodes s1 child) = props (nodes s child) \<and>
     (if type (nodes s child) = ''primitive''
      then object (nodes s1 child) = prop_of (nodes s child) ''object'' \<and> news s1 = news s
      else \<exists>i args a. object (nodes s1 child) = Ref a \<and> news s1 = news s @ [New i args])"
  by (auto simp: create_object_def Let_def upd_node_def truthy_def prop_of_def news_def
      split: if_splits sum.splits prod.splits dest!: new_Inr)


text \<open>The state the commit applies the properties in: the attach slot set by default.\<close>

lemma commit_after_create:
  "create_object L catalogue s child = Inr s1 \<Longrightarrow>
   \<exists>s2. object (nodes s2 child) = object (nodes s1 child) \<and> news s2 = news s1 \<and>
        commit L catalogue s child =
          applyProps L s2 (object (nodes s2 child)) (for_in (props (nodes s2 child)))"
proof -
  assume s1: "create_object L catalogue s child = Inr s1"
  define s2 where "s2 =
     (if prop_of (nodes s1 child) ''attach'' = Undefined then
        (if instanceof (mem s1) (object (nodes s1 child)) ''BufferGeometry''
         then upd_node s1 child (\<lambda>nd. nd\<lparr>props := AList.update ''attach'' (Str ''geometry'') (props nd)\<rparr>)
         else if instanceof (mem s1) (object (nodes s1 child)) ''Material''
         then upd_node s1 child (\<lambda>nd. nd\<lparr>props := AList.update ''attach'' (Str ''material'') (props nd)\<rparr>)
         else s1)
      else s1)"
  have "object (nodes s2 child) = object (nodes s1 child)" "news s2 = news s1"
    by (simp_all add: s2_def upd_node_def news_def)
  moreover from s1
  have "commit L catalogue s child =
      applyProps L s2 (object (nodes s2 child)) (for_in (props (nodes s2 child)))"
    by (simp add: commit_def s2_def Let_def)
  ultimately show ?thesis by blast
qed

lemma commit_ends:
  assumes s1: "create_object L catalogue s child = Inr s1"
    and e: "ends (commit L catalogue s child) s'"
  shows "object (nodes s' child) = object (nodes s1 child) \<and> news s' = news s1"
proof -
  from commit_after_create[OF s1] obtain s2 where
    s2: "object (nodes s2 child) = object (nodes s1 child)" "news s2 = news s1"
    and c: "commit L catalogue s child =
      applyProps L s2 (object (nodes s2 child)) (for_in (props (nodes s2 child)))"
    by blast
  from e c applyProps_frame[of L s2 _ _ s'] s2 show ?thesis by simp
qed


lemma static_object: "static s' = static s \<Longrightarrow> object (nodes s' n) = object (nodes s n)"
  by (auto simp: static_def fun_eq_iff)

lemma insertNode_after_create:
  assumes u: "\<not> truthy (object (nodes s child))"
    and s1: "create_object L catalogue s child = Inr s1"
    and e: "ends (insertNode L catalogue s par child bc) s'"
  shows "object (nodes s' child) = object (nodes s1 child)"
proof (cases "commit L catalogue s child")
  case (Inl x)
  with u e have "ends (commit L catalogue s child) s'"
    by (cases x) (simp add: insertNode_def)
  from commit_ends[OF s1 this] show ?thesis by simp
next
  case (Inr s2)
  with u e have "ends (link L s2 par child bc) s'" by (simp add: insertNode_def)
  from link_frame[OF this] commit_ends[OF s1 ends_Inr[OF Inr]] static_object[of s' s2 child]
  show ?thesis by simp
qed

lemma insertNode_create_fails:
  "\<not> truthy (object (nodes s child)) \<Longrightarrow> create_object L catalogue s child = Inl x \<Longrightarrow>
   insertNode L catalogue s par child bc = Inl x"
  by (simp add: insertNode_def commit_def)

text \<open>
  C5. For an insert of a node that has no object yet. The host refuses the commit with an
  error of its own in two cases, each with its message and with the state as it was
  (nothing constructed, no constructor called, nothing linked): a primitive node whose
  \<open>object\<close> property is not set, and a type whose capitalised name the catalogue
  answers nothing for. These are not the only failures. With an entry in the catalogue,
  the insert throws a TypeError, the state as it was, when the \<open>args\<close> cannot be
  spread or the entry is no function; and when the constructor throws, the insert throws
  that error, the constructor having been called. Every other failure of the insert comes
  after the object was made and put on the node (from the initial properties or the
  linking).
\<close>

theorem insertNode_commit_errors:
  assumes u: "\<not> truthy (object (nodes s child))"
  shows "(type (nodes s child) = ''primitive'' \<and> \<not> truthy (prop_of (nodes s child) ''object'') \<longrightarrow>
            insertNode L catalogue s par child bc = Inl (Error object_unset, s)) \<and>
         (type (nodes s child) \<noteq> ''primitive'' \<and> \<not> truthy (entry L catalogue s child) \<longrightarrow>
            insertNode L catalogue s par child bc =
              Inl (Error (not_in_catalog (type (nodes s child))), s)) \<and>
         (type (nodes s child) \<noteq> ''primitive'' \<and> truthy (entry L catalogue s child) \<longrightarrow>
            (spread_args s child = Inl TypeError \<or>
             \<not> is_function (mem s) (entry L catalogue s child) \<longrightarrow>
               insertNode L catalogue s par child bc = Inl (TypeError, s)) \<and>
            (\<forall>f i vs e st.
               entry L catalogue s child = Ref f \<and> callable (objs (mem s) f) = Some i \<and>
               spread_args s child = Inr vs \<and> construct L i vs (mem s) = Inl (e, st) \<longrightarrow>
                 insertNode L catalogue s par child bc =
                   Inl (e, s\<lparr>calls := calls s @ [New i vs], mem := st\<rparr>))) \<and>
         (\<forall>e s'. insertNode L catalogue s par child bc = Inl (e, s') \<longrightarrow>
            type (nodes s child) = ''primitive'' \<and> \<not> truthy (prop_of (nodes s child) ''object'') \<or>
            type (nodes s child) \<noteq> ''primitive'' \<and> \<not> truthy (entry L catalogue s child) \<or>
            type (nodes s child) \<noteq> ''primitive'' \<and> truthy (entry L catalogue s child) \<and>
              (spread_args s child = Inl TypeError \<or>
               \<not> is_function (mem s) (entry L catalogue s child)) \<or>
            (\<exists>f i vs st.
               entry L catalogue s child = Ref f \<and> callable (objs (mem s) f) = Some i \<and>
               spread_args s child = Inr vs \<and> construct L i vs (mem s) = Inl (e, st)) \<or>
            truthy (object (nodes s' child)))"
proof -
  let ?r = "insertNode L catalogue s par child bc"
  let ?t = "entry L catalogue s child"
  have r1: "?r = Inl (Error object_unset, s)"
    if "type (nodes s child) = ''primitive'' \<and> \<not> truthy (prop_of (nodes s child) ''object'')"
    using that u by (simp add: insertNode_def commit_def create_object_def)
  have r2: "?r = Inl (Error (not_in_catalog (type (nodes s child))), s)"
    if "type (nodes s child) \<noteq> ''primitive'' \<and> \<not> truthy ?t"
    using that u by (simp add: insertNode_def commit_def create_object_def)
  have r3: "?r = Inl (TypeError, s)"
    if reg: "type (nodes s child) \<noteq> ''primitive'' \<and> truthy ?t"
      and bad: "spread_args s child = Inl TypeError \<or> \<not> is_function (mem s) ?t"
  proof (cases "spread_args s child")
    case (Inl e0)
    with spread_args_Inl[OF Inl] reg u show ?thesis
      by (simp add: insertNode_def commit_def create_object_def)
  next
    case (Inr vs)
    with bad have "\<not> is_function (mem s) ?t" by simp
    from new_not_function[OF this, of L vs] reg u Inr show ?thesis
      by (simp add: insertNode_def commit_def create_object_def)
  qed
  have r4: "?r = Inl (e, s\<lparr>calls := calls s @ [New i vs], mem := st\<rparr>)"
    if reg: "type (nodes s child) \<noteq> ''primitive'' \<and> truthy ?t"
      and f: "?t = Ref f \<and> callable (objs (mem s) f) = Some i \<and>
              spread_args s child = Inr vs \<and> construct L i vs (mem s) = Inl (e, st)"
    for f i vs e st
    using reg f u by (simp add: insertNode_def commit_def create_object_def new_function)
  have r5: "type (nodes s child) = ''primitive'' \<and> \<not> truthy (prop_of (nodes s child) ''object'') \<or>
            type (nodes s child) \<noteq> ''primitive'' \<and> \<not> truthy ?t \<or>
            type (nodes s child) \<noteq> ''primitive'' \<and> truthy ?t \<and>
              (spread_args s child = Inl TypeError \<or> \<not> is_function (mem s) ?t) \<or>
            (\<exists>f i vs st.
               ?t = Ref f \<and> callable (objs (mem s) f) = Some i \<and>
               spread_args s child = Inr vs \<and> construct L i vs (mem s) = Inl (e, st)) \<or>
            truthy (object (nodes s' child))"
    if r: "?r = Inl (e, s')" for e s'
  proof (cases "create_object L catalogue s child")
    case (Inr s1)
    from insertNode_after_create[OF u Inr ends_Inl[OF r]] create_object_Inr[OF Inr]
    show ?thesis by simp
  next
    case (Inl x)
    from insertNode_create_fails[OF u Inl, of par bc] r have "x = (e, s')" by simp
    with Inl create_object_Inl[of L catalogue s child e s'] show ?thesis by blast
  qed
  show ?thesis
  proof (intro conjI impI allI, goal_cases)
    case 1 then show ?case by (rule r1)
  next
    case 2 then show ?case by (rule r2)
  next
    case 3 then show ?case by (rule r3)
  next
    case (4 f i vs e st) then show ?case by (rule r4)
  next
    case (5 e s') then show ?case by (rule r5)
  qed
qed

lemmas eval_host =
  insertNode_def commit_def create_object_def entry_def spread_args_def for_in_def link_def
  graph_insert_def splice_child_def
  removeNode_def unlink_def remove_object_def dispose_object_def attach_def detach_def
  applyProp_def copy_applies_def constructor_of_def put_def call_def callm_def new_def
  spread_def upd_node_def prop_of_def lookup_def toPascalCase_def upper_ascii_def
  Object_prototype_def
  splice_in_def without_def set_elems_def Object3D_add_def Object3D_remove_def object3D_def
  three_def blank_def RESERVED_PROPS_def INDEX_REGEX_test_def INDEX_REGEX_strip_def
  resolve_def news_def

theorem insertNode_commit_errors_witness:
  "\<not> truthy (object (nodes scene 3)) \<and> type (nodes scene 3) \<noteq> ''primitive'' \<and>
   \<not> truthy (entry three Map.empty scene 3) \<and>
   insertNode three Map.empty scene 0 3 None = Inl (Error (not_in_catalog ''object3D''), scene)"
proof -
  have u: "\<not> truthy (object (nodes scene 3))" by (simp add: scene_def truthy_def)
  have c2: "type (nodes scene 3) \<noteq> ''primitive'' \<and> \<not> truthy (entry three Map.empty scene 3)"
    by (simp add: scene_def entry_def lookup_def toPascalCase_def three_def upper_ascii_def
        Object_prototype_def truthy_def)
  from insertNode_commit_errors[OF u, of three Map.empty 0 None] c2
  have "insertNode three Map.empty scene 0 3 None =
      Inl (Error (not_in_catalog (type (nodes scene 3))), scene)" by blast
  moreover have "type (nodes scene 3) = ''object3D''" by (simp add: scene_def)
  ultimately show ?thesis using u c2 by simp
qed

text \<open>
  Node 3 is neither primitive nor of a type the catalogue lacks, and its commit fails all
  the same: with an object of the graph registered in place of its class the insert throws
  a TypeError, and with a constructor that throws (constructor 8) it throws the
  constructor's error. The type \<open>__proto__\<close> is in no catalogue, and yet the catalogue
  answers for it with \<open>Object.prototype\<close>: the insert throws a TypeError, not the
  host's error.
\<close>

theorem insertNode_commit_counterexample:
  "\<not> truthy (object (nodes scene 3)) \<and> type (nodes scene 3) \<noteq> ''primitive'' \<and>
   truthy (entry three [''Object3D'' \<mapsto> Ref 12] scene 3) \<and>
   insertNode three [''Object3D'' \<mapsto> Ref 12] scene 0 3 None = Inl (TypeError, scene) \<and>
   truthy (entry three [''Object3D'' \<mapsto> Ref 8] scene 3) \<and>
   insertNode three [''Object3D'' \<mapsto> Ref 8] scene 0 3 None =
     Inl (Error ''Error creating WebGL context.'', scene\<lparr>calls := [New 8 []]\<rparr>) \<and>
   insertNode three registered (upd_node scene 3 (\<lambda>nd. nd\<lparr>type := ''__proto__''\<rparr>)) 0 3 None =
     Inl (TypeError, upd_node scene 3 (\<lambda>nd. nd\<lparr>type := ''__proto__''\<rparr>))"
  by (simp add: scene_def registered_def eval_host eval_store Let_def)

section \<open>Navigation\<close>

text \<open>
  C8. In the scene, node 1 is followed by node 2 in the children of its parent, and it
  has no children of its own: \<open>getNextSibling\<close> answers with nothing, because it
  indexes the node's own children with the position found in the parent's.
\<close>

theorem getNextSibling_scene:
  "parent (nodes scene 1) = Some 0 \<and> children (nodes scene 0) = [1, 2] \<and>
   children (nodes scene 1) = [] \<and> getNextSibling scene 1 = Inr None"
  by (simp add: scene_def getNextSibling_def at_index_def blank_def)

section \<open>The object of a node is made once\<close>








section \<open>The priority of the applier\<close>

lemma applyProps_single:
  "prop \<notin> set RESERVED_PROPS \<Longrightarrow> applyProps L s ob [(prop, v)] = applyProp L s ob prop v"
  by (cases "applyProp L s ob prop v") simp_all

lemma has_settor_Ref: "has_settor st target \<Longrightarrow> \<exists>a. target = Ref a"
  by (cases target)
     (simp_all add: has_settor_def getp_def truthy_def get_char_name parse_index_def is_digit_def)

lemma isArray_spread: "isArray st v \<Longrightarrow> \<exists>vs. spread st v = Inr vs \<and> array_elems st v = Inr vs"
  by (cases v) (auto simp: isArray_def spread_def array_elems_def)

text \<open>
  Off one case the applier follows the priority of the specification (plain assignment
  without a settor, else \<open>copy\<close> for a copyable target and a value of the same
  constructor, else the array spread into \<open>set\<close>, else \<open>setScalar\<close> off colors,
  else \<open>set\<close> of the one value). The case: the target has a settor and a \<open>copy\<close>
  and the value is \<open>undefined\<close> or \<open>null\<close>.
\<close>

lemma applyProp_priority:
  assumes "prop \<notin> set RESERVED_PROPS"
  shows "applyProps L s ob [(prop, v)] =
           (if constructor_unreadable (mem s) ob prop v then Inl (TypeError, s)
            else spec_applyProp L s ob prop v)"
proof (cases "resolve (mem s) ob prop")
  case (Inl e)
  then show ?thesis unfolding applyProps_single[OF assms]
    by (simp add: applyProp_def spec_applyProp_def constructor_unreadable_def)
next
  case (Inr r)
  obtain root key target where r: "r = (root, key, target)" by (cases r)
  show ?thesis
  proof (cases "has_settor (mem s) target")
    case False
    with Inr r show ?thesis unfolding applyProps_single[OF assms]
      by (simp add: applyProp_def spec_applyProp_def constructor_unreadable_def)
  next
    case True
    then obtain a where a: "target = Ref a" using has_settor_Ref by blast
    show ?thesis
    proof (cases "truthy (getp (mem s) target ''copy'')")
      case nocopy: False
      show ?thesis
      proof (cases "isArray (mem s) v")
        case arr: True
        from isArray_spread[OF arr] obtain vs where "spread (mem s) v = Inr vs"
          "array_elems (mem s) v = Inr vs" by blast
        with Inr r True nocopy arr show ?thesis unfolding applyProps_single[OF assms]
          by (simp add: applyProp_def spec_applyProp_def
              constructor_unreadable_def copy_applies_def)
      next
        case False
        with Inr r True nocopy show ?thesis unfolding applyProps_single[OF assms]
          by (simp add: applyProp_def spec_applyProp_def
              constructor_unreadable_def copy_applies_def)
      qed
    next
      case copy: True
      show ?thesis
      proof (cases "nullish v")
        case nv: True
        then have "constructor_of (mem s) v = Inl TypeError"
          by (auto simp: nullish_def constructor_of_def)
        with Inr r True copy nv a show ?thesis unfolding applyProps_single[OF assms]
          by (simp add: applyProp_def constructor_unreadable_def
              copy_applies_def constructor_of_def)
      next
        case nv: False
        then obtain c where c: "constructor_of (mem s) v = Inr c"
          by (cases v) (simp_all add: nullish_def constructor_of_def)
        show ?thesis
        proof (cases "isArray (mem s) v")
          case arr: True
          from isArray_spread[OF arr] obtain vs where "spread (mem s) v = Inr vs"
            "array_elems (mem s) v = Inr vs" by blast
          with Inr r True copy nv a c arr show ?thesis unfolding applyProps_single[OF assms]
            by (simp add: applyProp_def spec_applyProp_def
                constructor_unreadable_def copy_applies_def same_constructor_def constructor_of_def)
        next
          case False
          with Inr r True copy nv a c show ?thesis unfolding applyProps_single[OF assms]
            by (simp add: applyProp_def spec_applyProp_def
                constructor_unreadable_def copy_applies_def same_constructor_def constructor_of_def)
        qed
      qed
    qed
  qed
qed

text \<open>
  C2. The \<open>position\<close> of object 10 is a vector: it has a settor, a \<open>copy\<close> and a
  \<open>setScalar\<close>, and it is no color. For the value \<open>undefined\<close>, and for
  \<open>null\<close>, the priority of the specification comes to \<open>setScalar\<close>, as the applier
  does for the value 2. The applier throws a TypeError instead, before it has chosen: it
  reads the constructor of the value. Next to it the applier takes the same value: the
  plain assignment writes \<open>null\<close>, and a target with a settor and no \<open>copy\<close>
  (\<open>b\<close> of object 11) is handed \<open>null\<close> through \<open>set\<close>. The older revision reads
  the constructor of the value for every target with a settor, and calls \<open>copy\<close> on a
  target that has none when the constructors agree: it throws in both cases.
\<close>

theorem applyProps_undefined_throws:
  "''position'' \<notin> set RESERVED_PROPS \<and>
   has_settor (mem live) (Ref 11) \<and> truthy (getp (mem live) (Ref 11) ''copy'') \<and>
   truthy (getp (mem live) (Ref 11) ''setScalar'') \<and> \<not> instanceof (mem live) (Ref 11) ''Color'' \<and>
   applyProps three live (Ref 10) [(''position'', Undefined)] = Inl (TypeError, live) \<and>
   applyProps three live (Ref 10) [(''position'', Null)] = Inl (TypeError, live) \<and>
   spec_applyProp three live (Ref 10) ''position'' Undefined =
     Inr (live\<lparr>calls := [Call 6 (Ref 11) [Undefined]]\<rparr>) \<and>
   spec_applyProp three live (Ref 10) ''position'' Null =
     Inr (live\<lparr>calls := [Call 6 (Ref 11) [Null]]\<rparr>) \<and>
   applyProps three live (Ref 10) [(''position'', Num 2)] =
     Inr (live\<lparr>calls := [Call 6 (Ref 11) [Num 2]]\<rparr>) \<and>
   slot_after (applyProps three live (Ref 10) [(''visible'', Null)]) (Ref 10) ''visible'' = Some Null \<and>
   applyProps three nested (Ref 11) [(''b'', Null)] =
     Inr (nested\<lparr>calls := [Call 4 (Ref 12) [Null]]\<rparr>) \<and>
   applyProps_r0 three live (Ref 10) [(''position'', Undefined)] = Inl (TypeError, live) \<and>
   applyProps_r0 three nested (Ref 11) [(''b'', Null)] = Inl (TypeError, nested) \<and>
   applyProps three nested (Ref 11) [(''b'', Ref 10)] =
     Inr (nested\<lparr>calls := [Call 4 (Ref 12) [Ref 10]]\<rparr>) \<and>
   applyProps_r0 three nested (Ref 11) [(''b'', Ref 10)] = Inl (TypeError, nested)"
  by (simp add: live_def vector_def nested_def pierced_def spec_applyProp_def same_constructor_def
      slot_after_def applyProp_r0_def RESERVED_PROPS_r0_def eval_host eval_store)

section \<open>Reserved keys\<close>

lemma applyProps_skip:
  "applyProps L s ob ps = applyProps L s ob (filter (\<lambda>(k, v). k \<notin> set RESERVED_PROPS) ps)"
proof (induction ps arbitrary: s)
  case Nil
  show ?case by simp
next
  case (Cons p ps)
  obtain k v where p: "p = (k, v)" by (cases p)
  show ?case
  proof (cases "k \<in> set RESERVED_PROPS")
    case True
    with p Cons.IH[of s] show ?thesis by simp
  next
    case False
    with p Cons.IH show ?thesis by (simp split: sum.splits)
  qed
qed

lemma applyProps_r0_skip:
  "applyProps_r0 L s ob ps =
     applyProps_r0 L s ob (filter (\<lambda>(k, v). k \<notin> set RESERVED_PROPS_r0) ps)"
proof (induction ps arbitrary: s)
  case Nil
  show ?case by simp
next
  case (Cons p ps)
  obtain k v where p: "p = (k, v)" by (cases p)
  show ?case
  proof (cases "k \<in> set RESERVED_PROPS_r0")
    case True
    with p Cons.IH[of s] show ?thesis by simp
  next
    case False
    with p Cons.IH show ?thesis by (simp split: sum.splits)
  qed
qed

lemma applyProps_reserved_only:
  "list_all (\<lambda>(k, v). k \<in> set RESERVED_PROPS) ps \<Longrightarrow> applyProps L s ob ps = Inr s"
  by (induction ps) auto

lemma resolve_plain:
  "CHR ''-'' \<notin> set key \<Longrightarrow>
   resolve st root key = (if nullish root then Inl TypeError else Inr (root, key, getp st root key))"
  by (simp add: resolve_def getv_def)

lemma call_quiet_Inr: "call L s f this args = Inr (r, s') \<Longrightarrow> calls s' \<noteq> calls s"
  by (auto simp: call_def Let_def split: val.splits option.splits sum.splits prod.splits)

lemma call_quiet_Inl: "call L s f this args = Inl (e, s') \<Longrightarrow> calls s' = calls s \<Longrightarrow> s' = s"
  by (auto simp: call_def Let_def split: val.splits option.splits sum.splits prod.splits)

lemma call_grow_Inr: "call L s f this args = Inr (r, s') \<Longrightarrow> \<exists>es. calls s' = calls s @ es"
  by (auto simp: call_def Let_def split: val.splits option.splits sum.splits prod.splits)

lemma call_grow_Inl: "call L s f this args = Inl (e, s') \<Longrightarrow> \<exists>es. calls s' = calls s @ es"
  by (auto simp: call_def Let_def split: val.splits option.splits sum.splits prod.splits)

lemma callm_quiet: "ends (callm L s t m args) s' \<Longrightarrow> calls s' = calls s \<Longrightarrow> s' = s"
  by (auto simp: callm_def ends_iff split: sum.splits prod.splits
      dest: call_quiet_Inr call_quiet_Inl)

lemma callm_grow: "ends (callm L s t m args) s' \<Longrightarrow> \<exists>es. calls s' = calls s @ es"
  by (auto simp: callm_def ends_iff split: sum.splits prod.splits
      dest: call_grow_Inr call_grow_Inl)

lemma applyProp_grow: "ends (applyProp L s ob k v) s' \<Longrightarrow> \<exists>es. calls s' = calls s @ es"
  unfolding applyProp_def ends_iff
  by (auto split: sum.splits prod.splits if_splits bool.splits
      dest!: put_Inr put_Inl callm_grow[OF ends_Inr] callm_grow[OF ends_Inl])

lemma applyProps_grow: "ends (applyProps L s ob ps) s' \<Longrightarrow> \<exists>es. calls s' = calls s @ es"
proof (induction ps arbitrary: s)
  case Nil
  then show ?case by simp
next
  case (Cons p ps)
  obtain k v where p: "p = (k, v)" by (cases p)
  show ?case
  proof (cases "k \<in> set RESERVED_PROPS")
    case True
    with Cons p show ?thesis by simp
  next
    case False
    show ?thesis
    proof (cases "applyProp L s ob k v")
      case (Inl es)
      with Cons.prems p False have "ends (applyProp L s ob k v) s'"
        by (cases es) simp
      then show ?thesis by (rule applyProp_grow)
    next
      case (Inr s1)
      with Cons.prems p False have "ends (applyProps L s1 ob ps) s'" by simp
      from Cons.IH[OF this] applyProp_grow[OF ends_Inr[OF Inr]] show ?thesis by auto
    qed
  qed
qed

lemma reserved_plain: "k \<in> set RESERVED_PROPS \<Longrightarrow> parse_index k = None \<and> k \<noteq> ''length''"
  by (auto simp: RESERVED_PROPS_def parse_index_def is_digit_def)

lemma get_prop_set_prop_other:
  "set_prop ob k x = Inr ob' \<Longrightarrow> k' \<noteq> k \<Longrightarrow> parse_index k' = None \<Longrightarrow> k' \<noteq> ''length'' \<Longrightarrow>
   get_prop ob' k' = get_prop ob k'"
  by (auto simp: set_prop_def get_prop_def split: option.splits if_splits val.splits)

lemma put_other:
  "put s ob k x = Inr s' \<Longrightarrow> k' \<noteq> k \<Longrightarrow> parse_index k' = None \<Longrightarrow> k' \<noteq> ''length'' \<Longrightarrow>
   getp (mem s') ob k' = getp (mem s) ob k'"
  by (auto simp: put_def setv_def getp_def split: sum.splits val.splits
      dest: get_prop_set_prop_other)

lemma applyProp_plain_frame:
  assumes plain: "CHR ''-'' \<notin> set k" and nres: "k \<notin> set RESERVED_PROPS"
    and e: "ends (applyProp L s ob k v) s'" and q: "calls s' = calls s"
    and res: "k' \<in> set RESERVED_PROPS"
  shows "getp (mem s') ob k' = getp (mem s) ob k'"
proof (cases "nullish ob")
  case True
  with e plain show ?thesis by (simp add: applyProp_def resolve_plain)
next
  case False
  from res nres have ne: "k' \<noteq> k" by auto
  show ?thesis
  proof (cases "has_settor (mem s) (getp (mem s) ob k)")
    case nos: False
    with e plain False have "ends (put s ob k v) s'" by (simp add: applyProp_def resolve_plain)
    then show ?thesis
      using put_other[of s ob k v s' k'] ne reserved_plain[OF res] put_Inl[of s ob k v _ s']
      by (auto simp: ends_iff put_def split: sum.splits)
  next
    case True
    have "s' = s"
    proof (cases "copy_applies (mem s) (getp (mem s) ob k) v")
      case (Inl x)
      with e plain False True show ?thesis by (simp add: applyProp_def resolve_plain)
    next
      case (Inr b)
      with e plain False True have
        "s' = s \<or> (\<exists>m args. ends (callm L s (getp (mem s) ob k) m args) s')"
        by (auto simp: applyProp_def resolve_plain split: bool.splits sum.splits if_splits)
      with callm_quiet[OF _ q] show ?thesis by blast
    qed
    then show ?thesis by simp
  qed
qed


lemma applyProps_plain_frame:
  assumes res: "k' \<in> set RESERVED_PROPS"
  shows "list_all (\<lambda>(k, v). CHR ''-'' \<notin> set k) ps \<Longrightarrow> ends (applyProps L s ob ps) s' \<Longrightarrow>
         calls s' = calls s \<Longrightarrow> getp (mem s') ob k' = getp (mem s) ob k'"
proof (induction ps arbitrary: s)
  case Nil
  then show ?case by simp
next
  case (Cons p ps)
  obtain k v where p: "p = (k, v)" by (cases p)
  from Cons.prems(1) p have plain: "CHR ''-'' \<notin> set k"
    and rest: "list_all (\<lambda>(k, v). CHR ''-'' \<notin> set k) ps" by simp_all
  show ?case
  proof (cases "k \<in> set RESERVED_PROPS")
    case True
    with Cons.prems p have "ends (applyProps L s ob ps) s'" by simp
    from Cons.IH[OF rest this Cons.prems(3)] show ?thesis .
  next
    case False
    show ?thesis
    proof (cases "applyProp L s ob k v")
      case (Inl es)
      with Cons.prems p False have "ends (applyProp L s ob k v) s'"
        by (cases es) simp
      from applyProp_plain_frame[OF plain False this Cons.prems(3) res] show ?thesis .
    next
      case (Inr s1)
      with Cons.prems p False have e: "ends (applyProps L s1 ob ps) s'" by simp
      from applyProp_grow[OF ends_Inr[OF Inr]] obtain es1 where es1: "calls s1 = calls s @ es1"
        by blast
      from applyProps_grow[OF e] obtain es2 where es2: "calls s' = calls s1 @ es2" by blast
      from es1 es2 Cons.prems(3) have q1: "calls s1 = calls s" and q2: "calls s' = calls s1"
        by simp_all
      from applyProp_plain_frame[OF plain False ends_Inr[OF Inr] q1 res]
        Cons.IH[OF rest e q2] show ?thesis by simp
    qed
  qed
qed

text \<open>
  C9. The applier skips the entries of the batch under the four reserved keys, whatever
  their values: applying a batch is applying it without those entries, and a batch of
  reserved keys only leaves the state as it was. The object's slots of those names keep
  their values whenever no key of the batch is pierced and no function of the library is
  called. (They are not safe from the other entries in general: a pierced key that
  resolves back to the object writes the slot, and a library settor may.)
\<close>

theorem applyProps_reserved:
  "applyProps L s ob ps = applyProps L s ob (filter (\<lambda>(k, v). k \<notin> set RESERVED_PROPS) ps) \<and>
   (list_all (\<lambda>(k, v). k \<in> set RESERVED_PROPS) ps \<longrightarrow> applyProps L s ob ps = Inr s) \<and>
   (list_all (\<lambda>(k, v). CHR ''-'' \<notin> set k) ps \<longrightarrow>
      (\<forall>s'. ends (applyProps L s ob ps) s' \<and> calls s' = calls s \<longrightarrow>
         getp (mem s') ob ''args'' = getp (mem s) ob ''args'' \<and>
         getp (mem s') ob ''attach'' = getp (mem s) ob ''attach'' \<and>
         getp (mem s') ob ''object'' = getp (mem s) ob ''object'' \<and>
         getp (mem s') ob ''dispose'' = getp (mem s) ob ''dispose''))"
proof (intro conjI impI allI, goal_cases)
  case 1 show ?case by (rule applyProps_skip)
next
  case 2 then show ?case by (rule applyProps_reserved_only)
next
  case 3 then show ?case
    using applyProps_plain_frame[of "''args''" ps L s ob] by (simp add: RESERVED_PROPS_def)
next
  case 4 then show ?case
    using applyProps_plain_frame[of "''attach''" ps L s ob] by (simp add: RESERVED_PROPS_def)
next
  case 5 then show ?case
    using applyProps_plain_frame[of "''object''" ps L s ob] by (simp add: RESERVED_PROPS_def)
next
  case 6 then show ?case
    using applyProps_plain_frame[of "''dispose''" ps L s ob] by (simp add: RESERVED_PROPS_def)
qed

theorem applyProps_reserved_witness:
  "list_all (\<lambda>(k, v). k \<in> set RESERVED_PROPS) [(''args'', Num 5), (''dispose'', Null)] \<and>
   applyProps three live (Ref 10) [(''args'', Num 5), (''dispose'', Null)] = Inr live \<and>
   list_all (\<lambda>(k, v). CHR ''-'' \<notin> set k) [(''args'', Num 5), (''visible'', Bool False)] \<and>
   ends (applyProps three live (Ref 10) [(''args'', Num 5), (''visible'', Bool False)])
     (live\<lparr>mem := (mem live)\<lparr>objs := (objs (mem live))
        (10 := plain [''position'' \<mapsto> Ref 11, ''self'' \<mapsto> Ref 10, ''args'' \<mapsto> Num 1,
                      ''visible'' \<mapsto> Bool False])\<rparr>\<rparr>) \<and>
   getp (mem (live\<lparr>mem := (mem live)\<lparr>objs := (objs (mem live))
        (10 := plain [''position'' \<mapsto> Ref 11, ''self'' \<mapsto> Ref 10, ''args'' \<mapsto> Num 1,
                      ''visible'' \<mapsto> Bool False])\<rparr>\<rparr>)) (Ref 10) ''args'' =
     getp (mem live) (Ref 10) ''args''"
proof -
  let ?s' = "live\<lparr>mem := (mem live)\<lparr>objs := (objs (mem live))
        (10 := plain [''position'' \<mapsto> Ref 11, ''self'' \<mapsto> Ref 10, ''args'' \<mapsto> Num 1,
                      ''visible'' \<mapsto> Bool False])\<rparr>\<rparr>"
  have r: "list_all (\<lambda>(k, v). k \<in> set RESERVED_PROPS) [(''args'', Num 5), (''dispose'', Null)]"
    by (simp add: RESERVED_PROPS_def)
  have p: "list_all (\<lambda>(k, v). CHR ''-'' \<notin> set k) [(''args'', Num 5), (''visible'', Bool False)]"
    by simp
  have e: "ends (applyProps three live (Ref 10) [(''args'', Num 5), (''visible'', Bool False)]) ?s'"
    by (simp add: live_def vector_def eval_host eval_store)
  have q: "calls ?s' = calls live" by simp
  from applyProps_reserved[of three live "Ref 10" "[(''args'', Num 5), (''dispose'', Null)]"] r
  have 1: "applyProps three live (Ref 10) [(''args'', Num 5), (''dispose'', Null)] = Inr live"
    by blast
  from applyProps_reserved[of three live "Ref 10" "[(''args'', Num 5), (''visible'', Bool False)]"] p e q
  have 2: "getp (mem ?s') (Ref 10) ''args'' = getp (mem live) (Ref 10) ''args''"
    by blast
  from r p e 1 2 show ?thesis by blast
qed

text \<open>
  On an object whose \<open>self\<close> is the object itself, the entry \<open>self-args\<close>, which is
  not reserved, writes the object's \<open>args\<close> slot. In the older revision, where
  \<open>dispose\<close> is not reserved, the entry \<open>dispose: null\<close> is written onto the object.
\<close>

theorem applyProps_alias_counterexample:
  "''self-args'' \<notin> set RESERVED_PROPS \<and>
   getp (mem live) (Ref 10) ''args'' = Num 1 \<and>
   applyProps three live (Ref 10) [(''self-args'', Num 5)] =
     Inr (live\<lparr>mem := (mem live)\<lparr>objs := (objs (mem live))
        (10 := plain [''position'' \<mapsto> Ref 11, ''self'' \<mapsto> Ref 10, ''args'' \<mapsto> Num 5])\<rparr>\<rparr>) \<and>
   getp (mem (live\<lparr>mem := (mem live)\<lparr>objs := (objs (mem live))
        (10 := plain [''position'' \<mapsto> Ref 11, ''self'' \<mapsto> Ref 10, ''args'' \<mapsto> Num 5])\<rparr>\<rparr>))
     (Ref 10) ''args'' = Num 5 \<and>
   slot_after (applyProps_r0 three live (Ref 10) [(''dispose'', Null)]) (Ref 10) ''dispose'' = Some Null \<and>
   getp (mem live) (Ref 10) ''dispose'' = Undefined"
  by (simp add: live_def vector_def slot_after_def applyProp_r0_def RESERVED_PROPS_r0_def
      eval_host eval_store)

section \<open>Removal and disposal\<close>

lemma indexOf_absent: "x \<notin> set xs \<Longrightarrow> indexOf xs x = -1"
  by (induction xs) (auto simp: Let_def)



lemma dispose_object_calls:
  assumes "prop_of (nodes s child) ''dispose'' \<noteq> Null" "type (nodes s child) \<noteq> ''primitive''"
    and "getp (mem s) (object (nodes s child)) ''dispose'' = Ref f"
    and "callable (objs (mem s) f) = Some i"
  shows "dispose_object L s child =
     (case invoke L i (object (nodes s child)) [] (mem s) of
        Inl (e, st) \<Rightarrow> Inl (e, s\<lparr>calls := calls s @ [Call i (object (nodes s child)) []], mem := st\<rparr>)
      | Inr (r, st) \<Rightarrow> Inr (s\<lparr>calls := calls s @ [Call i (object (nodes s child)) []], mem := st\<rparr>))"
proof -
  from assms(3) have nn: "\<not> nullish (object (nodes s child))"
    by (cases "object (nodes s child)") (simp_all add: getp_def nullish_def)
  with assms show ?thesis
    by (simp add: dispose_object_def getv_def nullish_def call_def Let_def
        split: sum.splits prod.splits)
qed






lemma unlink_absent:
  "child \<notin> set (children (nodes s par)) \<Longrightarrow>
   unlink s par child = upd_node s child (\<lambda>nd. nd\<lparr>parent := None\<rparr>)"
proof -
  assume a: "child \<notin> set (children (nodes s par))"
  have "children (nodes (upd_node s child (\<lambda>nd. nd\<lparr>parent := None\<rparr>)) par) = children (nodes s par)"
    by (simp add: upd_node_def)
  with a indexOf_absent[of child "children (nodes s par)"] show ?thesis
    by (simp add: unlink_def Let_def)
qed

lemma dispose_object_grow:
  "ends (dispose_object L s child) s' \<Longrightarrow> \<exists>es. calls s' = calls s @ es"
  unfolding dispose_object_def ends_iff
  by (auto split: if_splits sum.splits prod.splits dest: call_grow_Inr call_grow_Inl)

lemma call_function:
  "callable (objs (mem s) f) = Some i \<Longrightarrow>
   call L s (Ref f) this args =
     (case invoke L i this args (mem s) of
        Inl (e, st) \<Rightarrow> Inl (e, s\<lparr>calls := calls s @ [Call i this args], mem := st\<rparr>)
      | Inr (r, st) \<Rightarrow> Inr (r, s\<lparr>calls := calls s @ [Call i this args], mem := st\<rparr>))"
  by (simp add: call_def Let_def split: sum.splits prod.splits)

lemma callm_function:
  assumes "getp (mem s) target m = Ref f" "callable (objs (mem s) f) = Some i"
  shows "callm L s target m args =
     (case invoke L i target args (mem s) of
        Inl (e, st) \<Rightarrow> Inl (e, s\<lparr>calls := calls s @ [Call i target args], mem := st\<rparr>)
      | Inr (r, st) \<Rightarrow> Inr (s\<lparr>calls := calls s @ [Call i target args], mem := st\<rparr>))"
proof -
  from assms(1) have "\<not> nullish target"
    by (cases target) (simp_all add: getp_def nullish_def)
  with assms show ?thesis
    by (simp add: callm_def getv_def call_function split: sum.splits prod.splits)
qed

text \<open>
  C10. When the child is not among the parent's children, \<open>removeNode\<close> skips the
  splice: however the removal ends, the parent's children are what they were and the
  child has no parent. The later steps run as in any removal, on the state with the
  parent cleared: \<open>detach\<close> for a child with an attach slot, else \<open>remove\<close> of the
  parent's object for two objects of the graph; then, unless \<open>dispose\<close> is \<open>null\<close>
  or the node is primitive, the dispose routine of the child's object if it has one. The
  removal returns when these steps return, and throws what they throw. For two objects of
  the graph the call of \<open>remove\<close> is the first call of the removal; where neither
  detach nor graph removal applies, the call of the dispose routine is the only one.
\<close>

theorem removeNode_absent_child:
  assumes a: "child \<notin> set (children (nodes s par))"
  shows "(\<forall>s'. ends (removeNode L s par child) s' \<longrightarrow>
            children (nodes s' par) = children (nodes s par) \<and> parent (nodes s' child) = None) \<and>
         removeNode L s par child =
           (case (if truthy (prop_of (nodes s child) ''attach'')
                  then detach L (upd_node s child (\<lambda>nd. nd\<lparr>parent := None\<rparr>)) par child
                  else if instanceof (mem s) (object (nodes s par)) ''Object3D'' \<and>
                          instanceof (mem s) (object (nodes s child)) ''Object3D''
                  then callm L (upd_node s child (\<lambda>nd. nd\<lparr>parent := None\<rparr>))
                         (object (nodes s par)) ''remove'' [object (nodes s child)]
                  else Inr (upd_node s child (\<lambda>nd. nd\<lparr>parent := None\<rparr>))) of
              Inl e \<Rightarrow> Inl e
            | Inr s1 \<Rightarrow>
                if prop_of (nodes s child) ''dispose'' = Null \<or> type (nodes s child) = ''primitive''
                then Inr s1
                else (case getv (mem s1) (object (nodes s child)) ''dispose'' of
                        Inl e \<Rightarrow> Inl (e, s1)
                      | Inr f \<Rightarrow>
                          if nullish f then Inr s1
                          else (case call L s1 f (object (nodes s child)) [] of
                                  Inl e \<Rightarrow> Inl e
                                | Inr (r, s2) \<Rightarrow> Inr s2))) \<and>
         (\<not> truthy (prop_of (nodes s child) ''attach'') \<and>
          instanceof (mem s) (object (nodes s par)) ''Object3D'' \<and>
          instanceof (mem s) (object (nodes s child)) ''Object3D'' \<longrightarrow>
            (\<forall>f i s'. getp (mem s) (object (nodes s par)) ''remove'' = Ref f \<and>
                      callable (objs (mem s) f) = Some i \<and>
                      ends (removeNode L s par child) s' \<longrightarrow>
               (\<exists>rest. calls s' =
                  calls s @ Call i (object (nodes s par)) [object (nodes s child)] # rest))) \<and>
         (\<not> truthy (prop_of (nodes s child) ''attach'') \<and>
          \<not> (instanceof (mem s) (object (nodes s par)) ''Object3D'' \<and>
             instanceof (mem s) (object (nodes s child)) ''Object3D'') \<and>
          prop_of (nodes s child) ''dispose'' \<noteq> Null \<and> type (nodes s child) \<noteq> ''primitive'' \<longrightarrow>
            (\<forall>f i s'. getp (mem s) (object (nodes s child)) ''dispose'' = Ref f \<and>
                      callable (objs (mem s) f) = Some i \<and>
                      ends (removeNode L s par child) s' \<longrightarrow>
               calls s' = calls s @ [Call i (object (nodes s child)) []]))"
proof -
  define s0 where "s0 = upd_node s child (\<lambda>nd. nd\<lparr>parent := None\<rparr>)"
  let ?po = "object (nodes s par)" and ?co = "object (nodes s child)"
  have u: "unlink s par child = s0"
    unfolding s0_def by (rule unlink_absent[OF a])
  have s0: "mem s0 = mem s" "calls s0 = calls s" "object (nodes s0 par) = ?po"
    "object (nodes s0 child) = ?co" "prop_of (nodes s0 child) k = prop_of (nodes s child) k"
    "type (nodes s0 child) = type (nodes s child)" for k
    by (simp_all add: s0_def upd_node_def prop_of_def)
  have guard: "children (nodes s' par) = children (nodes s par) \<and> parent (nodes s' child) = None"
    if "ends (removeNode L s par child) s'" for s'
  proof -
    from removeNode_nodes[OF that] u have "nodes s' = nodes s0" by simp
    then show ?thesis by (simp add: s0_def upd_node_def)
  qed
  define st1 where "st1 =
      (if truthy (prop_of (nodes s child) ''attach'') then detach L s0 par child
       else if instanceof (mem s) ?po ''Object3D'' \<and> instanceof (mem s) ?co ''Object3D''
       then callm L s0 ?po ''remove'' [?co]
       else Inr s0)"
  have step1: "remove_object L s0 par child = st1"
    by (simp add: remove_object_def s0 st1_def)
  have step2: "dispose_object L s1 child =
      (if prop_of (nodes s child) ''dispose'' = Null \<or> type (nodes s child) = ''primitive''
       then Inr s1
       else (case getv (mem s1) ?co ''dispose'' of
               Inl e \<Rightarrow> Inl (e, s1)
             | Inr f \<Rightarrow>
                 if nullish f then Inr s1
                 else (case call L s1 f ?co [] of Inl e \<Rightarrow> Inl e | Inr (r, s2) \<Rightarrow> Inr s2)))"
    if "remove_object L s0 par child = Inr s1" for s1
  proof -
    from remove_object_Inr[OF that] have "nodes s1 = nodes s0" by simp
    then have same: "object (nodes s1 child) = ?co"
      "prop_of (nodes s1 child) ''dispose'' = prop_of (nodes s child) ''dispose''"
      "type (nodes s1 child) = type (nodes s child)"
      using s0 by (simp_all add: prop_of_def)
    show ?thesis unfolding dispose_object_def same by simp
  qed
  have eq: "removeNode L s par child =
      (case remove_object L s0 par child of Inl e \<Rightarrow> Inl e | Inr s1 \<Rightarrow> dispose_object L s1 child)"
    by (simp add: removeNode_def u)
  have whole: "removeNode L s par child =
           (case st1 of
              Inl e \<Rightarrow> Inl e
            | Inr s1 \<Rightarrow>
                if prop_of (nodes s child) ''dispose'' = Null \<or> type (nodes s child) = ''primitive''
                then Inr s1
                else (case getv (mem s1) ?co ''dispose'' of
                        Inl e \<Rightarrow> Inl (e, s1)
                      | Inr f \<Rightarrow>
                          if nullish f then Inr s1
                          else (case call L s1 f ?co [] of
                                  Inl e \<Rightarrow> Inl e
                                | Inr (r, s2) \<Rightarrow> Inr s2)))"
  proof (cases st1)
    case (Inl x)
    with eq step1 show ?thesis by simp
  next
    case (Inr s1)
    with step1 have "remove_object L s0 par child = Inr s1" by simp
    from step2[OF this] eq step1 Inr show ?thesis by simp
  qed
  have graph: "\<exists>rest. calls s' = calls s @ Call i ?po [?co] # rest"
    if g: "\<not> truthy (prop_of (nodes s child) ''attach'') \<and>
           instanceof (mem s) ?po ''Object3D'' \<and> instanceof (mem s) ?co ''Object3D''"
      and f: "getp (mem s) ?po ''remove'' = Ref f \<and> callable (objs (mem s) f) = Some i \<and>
              ends (removeNode L s par child) s'" for f i s'
  proof -
    from f s0 have f0: "getp (mem s0) ?po ''remove'' = Ref f" "callable (objs (mem s0) f) = Some i"
      by simp_all
    have r: "remove_object L s0 par child =
        (case invoke L i ?po [?co] (mem s0) of
           Inl (e, st) \<Rightarrow> Inl (e, s0\<lparr>calls := calls s0 @ [Call i ?po [?co]], mem := st\<rparr>)
         | Inr (r, st) \<Rightarrow> Inr (s0\<lparr>calls := calls s0 @ [Call i ?po [?co]], mem := st\<rparr>))"
      using g step1 callm_function[OF f0, of L "[?co]"] by (simp add: st1_def)
    show ?thesis
    proof (cases "invoke L i ?po [?co] (mem s0)")
      case (Inl x)
      obtain e st where "x = (e, st)" by (cases x)
      with Inl r eq f s0 show ?thesis by simp
    next
      case (Inr x)
      obtain v st where x: "x = (v, st)" by (cases x)
      define s1 where "s1 = s0\<lparr>calls := calls s0 @ [Call i ?po [?co]], mem := st\<rparr>"
      from Inr r x have "remove_object L s0 par child = Inr s1" by (simp add: s1_def)
      with eq f have "ends (dispose_object L s1 child) s'" by simp
      from dispose_object_grow[OF this] obtain es where "calls s' = calls s1 @ es" by blast
      then show ?thesis by (simp add: s1_def s0)
    qed
  qed
  have alone: "calls s' = calls s @ [Call i ?co []]"
    if g: "\<not> truthy (prop_of (nodes s child) ''attach'') \<and>
           \<not> (instanceof (mem s) ?po ''Object3D'' \<and> instanceof (mem s) ?co ''Object3D'') \<and>
           prop_of (nodes s child) ''dispose'' \<noteq> Null \<and> type (nodes s child) \<noteq> ''primitive''"
      and f: "getp (mem s) ?co ''dispose'' = Ref f \<and> callable (objs (mem s) f) = Some i \<and>
              ends (removeNode L s par child) s'" for f i s'
  proof -
    from g step1 have r: "remove_object L s0 par child = Inr s0" by (auto simp: st1_def)
    from g s0 have d: "prop_of (nodes s0 child) ''dispose'' \<noteq> Null" "type (nodes s0 child) \<noteq> ''primitive''"
      by simp_all
    from f s0 have f0: "getp (mem s0) (object (nodes s0 child)) ''dispose'' = Ref f"
      "callable (objs (mem s0) f) = Some i" by simp_all
    from eq r f have "ends (dispose_object L s0 child) s'" by simp
    then show ?thesis unfolding dispose_object_calls[OF d f0]
      by (auto simp: ends_iff s0 split: sum.splits prod.splits)
  qed
  show ?thesis
  proof (intro conjI impI allI, goal_cases)
    case (1 s') then show ?case using guard by blast
  next
    case (2 s') then show ?case using guard by blast
  next
    case 3 show ?case using whole unfolding st1_def s0_def .
  next
    case (4 f i s') then show ?case using graph by blast
  next
    case (5 f i s') then show ?case using alone by blast
  qed
qed

theorem removeNode_absent_child_witness:
  "4 \<notin> set (children (nodes scene 0)) \<and>
   \<not> truthy (prop_of (nodes scene 4) ''attach'') \<and>
   instanceof (mem scene) (object (nodes scene 0)) ''Object3D'' \<and>
   instanceof (mem scene) (object (nodes scene 4)) ''Object3D'' \<and>
   getp (mem scene) (object (nodes scene 0)) ''remove'' = Ref 1 \<and>
   callable (objs (mem scene) 1) = Some 1 \<and>
   removeNode three scene 0 4 =
     Inr (scene\<lparr>calls := [Call 1 (Ref 10) [Ref 17], Call 3 (Ref 17) []]\<rparr>) \<and>
   children (nodes (scene\<lparr>calls := [Call 1 (Ref 10) [Ref 17], Call 3 (Ref 17) []]\<rparr>) 0) =
     children (nodes scene 0) \<and>
   parent (nodes (scene\<lparr>calls := [Call 1 (Ref 10) [Ref 17], Call 3 (Ref 17) []]\<rparr>) 4) = None \<and>
   (\<exists>rest. calls (scene\<lparr>calls := [Call 1 (Ref 10) [Ref 17], Call 3 (Ref 17) []]\<rparr>) =
      calls scene @ Call 1 (object (nodes scene 0)) [object (nodes scene 4)] # rest)"
proof -
  let ?s' = "scene\<lparr>calls := [Call 1 (Ref 10) [Ref 17], Call 3 (Ref 17) []]\<rparr>"
  have a: "4 \<notin> set (children (nodes scene 0))" by (simp add: scene_def blank_def)
  have g: "\<not> truthy (prop_of (nodes scene 4) ''attach'')"
    "instanceof (mem scene) (object (nodes scene 0)) ''Object3D''"
    "instanceof (mem scene) (object (nodes scene 4)) ''Object3D''"
    "getp (mem scene) (object (nodes scene 0)) ''remove'' = Ref 1"
    "callable (objs (mem scene) 1) = Some 1"
    by (simp_all add: scene_def blank_def prop_of_def object3D_def eval_store)
  have r: "removeNode three scene 0 4 = Inr ?s'"
    by (simp add: scene_def eval_host eval_store Let_def fun_eq_iff)
  note t = removeNode_absent_child[OF a, of three]
  from t ends_Inr[OF r]
  have 1: "children (nodes ?s' 0) = children (nodes scene 0) \<and> parent (nodes ?s' 4) = None"
    by blast
  from t g ends_Inr[OF r]
  have 2: "\<exists>rest. calls ?s' =
      calls scene @ Call 1 (object (nodes scene 0)) [object (nodes scene 4)] # rest"
    by blast
  from a g r 1 2 show ?thesis by blast
qed

text \<open>
  Two removals of a child that is not among the parent's children, and that do not
  return. Node 1 of the owner example attaches to \<open>attributes-position\<close>; taken off
  node 2, whose object has no \<open>attributes\<close>, the detach walks the path into
  \<open>undefined\<close> and throws a TypeError. Node 3 of the scene was never committed and
  has no object: reading its dispose routine throws a TypeError.
\<close>

theorem removeNode_throws_counterexample:
  "1 \<notin> set (children (nodes owner 2)) \<and> object (nodes owner 1) = Ref 12 \<and>
   object (nodes owner 2) = Ref 13 \<and>
   removeNode three owner 2 1 = Inl (TypeError, owner) \<and>
   3 \<notin> set (children (nodes scene 0)) \<and> object (nodes scene 3) = Null \<and>
   removeNode three scene 0 3 = Inl (TypeError, scene)"
  by (simp add: scene_def owner_def eval_host eval_store Let_def fun_eq_iff)

section \<open>Insertion before a sibling\<close>

text \<open>
  C4. In the scene the parent's object holds objects 12 and 14 at positions 0 and 1, and
  node 1 (object 12) is \<open>beforeChild\<close>; no node declares an attach slot and all objects
  are \<open>Object3D\<close>s. Inserting node 4 (object 17) before it: the parent's object holds
  object 12, so \<open>insertNode\<close> comes to \<open>this.removeNode\<close> and throws a TypeError.
  The node is linked by then, at the end of the parent's children; the graph is as it
  was, without object 17, and nothing of the library was called. The older revision
  splices at start \<open>-1\<close> and ends as 12, 17, 14: the child is not at position 0.
\<close>

theorem insertNode_before_scene:
  "array_elems (mem scene) (Ref 11) = Inr [Ref 12, Ref 14] \<and>
   object (nodes scene 1) = Ref 12 \<and> object (nodes scene 4) = Ref 17 \<and>
   (\<exists>s'. insertNode three registered scene 0 4 (Some 1) = Inl (TypeError, s') \<and>
         array_elems (mem s') (Ref 11) = Inr [Ref 12, Ref 14] \<and>
         getp (mem s') (Ref 17) ''parent'' = Null \<and>
         children (nodes s' 0) = [1, 2, 4] \<and> parent (nodes s' 4) = Some 0 \<and> calls s' = []) \<and>
   (\<exists>s'. link_r0 three scene 0 4 (Some 1) = Inr s' \<and>
         array_elems (mem s') (Ref 11) = Inr [Ref 12, Ref 17, Ref 14] \<and>
         children (nodes s' 0) = [1, 2, 4])"
  by (simp add: scene_def registered_def link_r0_def eval_host eval_store Let_def)

section \<open>Attach and detach\<close>

lemma get_set_same: "set_prop ob k x = Inr ob' \<Longrightarrow> get_prop ob' k = x"
proof (cases "elems ob")
  case None
  then show "set_prop ob k x = Inr ob' \<Longrightarrow> get_prop ob' k = x"
    by (auto simp: set_prop_def get_prop_def)
next
  case (Some xs)
  assume sp: "set_prop ob k x = Inr ob'"
  show "get_prop ob' k = x"
  proof (cases "parse_index k")
    case (Some i)
    with sp \<open>elems ob = Some xs\<close> show ?thesis
      by (cases "i < length xs") (auto simp: set_prop_def get_prop_def nth_append)
  next
    case None
    show ?thesis
    proof (cases "k = ''length''")
      case True
      with sp None \<open>elems ob = Some xs\<close> show ?thesis
        by (cases x) (auto simp: set_prop_def get_prop_def split: if_splits)
    next
      case False
      with sp None \<open>elems ob = Some xs\<close> show ?thesis
        by (auto simp: set_prop_def get_prop_def)
    qed
  qed
qed

lemma get_set_other:
  assumes sp: "set_prop ob k x = Inr ob'" and ne: "k' \<noteq> k" and sk: "slot_key k \<or> slot_key k'"
  shows "get_prop ob' k' = get_prop ob k'"
proof (cases "elems ob")
  case None
  with sp ne show ?thesis by (auto simp: set_prop_def get_prop_def)
next
  case (Some xs)
  show ?thesis
  proof (cases "slot_key k")
    case True
    with sp ne Some show ?thesis
      by (auto simp: set_prop_def get_prop_def slot_key_def split: option.splits)
  next
    case False
    with sk have k': "slot_key k'" by simp
    show ?thesis
    proof (cases "parse_index k")
      case (Some i)
      with sp ne k' \<open>elems ob = Some xs\<close> show ?thesis
        by (auto simp: set_prop_def get_prop_def slot_key_def)
    next
      case None
      with False have "k = ''length''" by (simp add: slot_key_def)
      with sp ne k' None \<open>elems ob = Some xs\<close> show ?thesis
        by (cases x) (auto simp: set_prop_def get_prop_def slot_key_def split: if_splits)
    qed
  qed
qed

lemma put_same: "put s v k x = Inr s' \<Longrightarrow> getp (mem s') v k = x"
  by (auto simp: put_def setv_def getp_def split: sum.splits val.splits dest: get_set_same)

lemma put_other_val:
  assumes p: "put s v k x = Inr s'"
    and o: "v' \<noteq> v \<or> (k' \<noteq> k \<and> (slot_key k \<or> slot_key k'))"
  shows "getp (mem s') v' k' = getp (mem s) v' k'"
proof -
  from p obtain a ob' where v: "v = Ref a" and sp: "set_prop (objs (mem s) a) k x = Inr ob'"
    and s': "mem s' = (mem s)\<lparr>objs := (objs (mem s))(a := ob')\<rparr>"
    by (auto simp: put_def setv_def split: sum.splits val.splits)
  show ?thesis
  proof (cases "v' = v")
    case True
    with o have "k' \<noteq> k" "slot_key k \<or> slot_key k'" by simp_all
    from get_set_other[OF sp this] True v s' show ?thesis by (simp add: getp_def)
  next
    case False
    with v s' show ?thesis by (cases v') (simp_all add: getp_def)
  qed
qed

lemma delv_Ref:
  "delv st v k = Inr st' \<Longrightarrow>
     (\<exists>a. v = Ref a \<and> st' = st\<lparr>objs := (objs st)(a := (objs st a)\<lparr>slots := (slots (objs st a))(k := None)\<rparr>)\<rparr>)
     \<or> ((\<forall>a. v \<noteq> Ref a) \<and> st' = st)"
  by (cases v) (simp_all add: delv_def)

lemma get_prop_del_same: "slot_key k \<Longrightarrow> get_prop (ob\<lparr>slots := (slots ob)(k := None)\<rparr>) k = Undefined"
  by (cases "elems ob") (simp_all add: get_prop_def slot_key_def)

lemma get_prop_del_other: "k' \<noteq> k \<Longrightarrow> get_prop (ob\<lparr>slots := (slots ob)(k := None)\<rparr>) k' = get_prop ob k'"
  by (cases "elems ob") (auto simp: get_prop_def split: option.splits)

lemma delv_same:
  "delv st v k = Inr st' \<Longrightarrow> slot_key k \<Longrightarrow> getp st' v k = Undefined"
  using delv_Ref[of st v k st']
  by (cases v) (auto simp: getp_def get_prop_del_same get_char_name slot_key_def)

lemma delv_other:
  assumes d: "delv st v k = Inr st'" and o: "v' \<noteq> v \<or> k' \<noteq> k"
  shows "getp st' v' k' = getp st v' k'"
proof (cases v')
  case (Ref b)
  from delv_Ref[OF d] show ?thesis
  proof
    assume "\<exists>a. v = Ref a \<and> st' = st\<lparr>objs := (objs st)(a := (objs st a)\<lparr>slots := (slots (objs st a))(k := None)\<rparr>)\<rparr>"
    then obtain a where a: "v = Ref a"
      "st' = st\<lparr>objs := (objs st)(a := (objs st a)\<lparr>slots := (slots (objs st a))(k := None)\<rparr>)\<rparr>"
      by blast
    show ?thesis
    proof (cases "b = a")
      case True
      with o a Ref have "k' \<noteq> k" by simp
      with a Ref True show ?thesis by (simp add: getp_def get_prop_del_other)
    next
      case False
      with a Ref show ?thesis by (simp add: getp_def)
    qed
  next
    assume "(\<forall>a. v \<noteq> Ref a) \<and> st' = st"
    then show ?thesis by simp
  qed
qed (simp_all add: getp_def)

lemma no_dash_no_index: "CHR ''-'' \<notin> set path \<Longrightarrow> \<not> INDEX_REGEX_test path"
proof
  assume nd: "CHR ''-'' \<notin> set path" and t: "INDEX_REGEX_test path"
  let ?rest = "dropWhile is_digit (rev path)"
  from t have "?rest \<noteq> []" "hd ?rest = CHR ''-''" by (simp_all add: INDEX_REGEX_test_def Let_def)
  then have "CHR ''-'' \<in> set ?rest" by (metis hd_in_set)
  then have "CHR ''-'' \<in> set (rev path)" by (rule set_dropWhileD)
  with nd show False by simp
qed

lemma previousAttach_key: "slot_key ''__previousAttach''"
  by (simp add: slot_key_def parse_index_def is_digit_def)

lemma reduce_butlast:
  assumes ne: "ks \<noteq> []" and w: "reduce st ks root0 = Inr t"
  shows "\<exists>p. reduce st (butlast ks) root0 = Inr p \<and> getv st p (last ks) = Inr t"
proof -
  from ne have dec: "ks = butlast ks @ [last ks]" by simp
  from w have "(case reduce st (butlast ks) root0 of Inl e \<Rightarrow> Inl e
      | Inr v \<Rightarrow> reduce st [last ks] v) = Inr t"
    using reduce_append[of st "butlast ks" "[last ks]" root0] dec by simp
  then show ?thesis by (auto split: sum.splits)
qed

lemma resolve_root: "resolve st root0 path = Inr (root, key, target) \<Longrightarrow> \<not> nullish root"
proof -
  assume r: "resolve st root0 path = Inr (root, key, target)"
  then have n0: "\<not> nullish root0"
    by (auto simp: resolve_def getv_def split: if_splits)
  show ?thesis
  proof (cases "CHR ''-'' \<in> set path")
    case False
    with r n0 show ?thesis by (simp add: resolve_plain)
  next
    case True
    show ?thesis
    proof (cases "root = root0")
      case True
      with n0 show ?thesis by simp
    next
      case False
      from r True obtain t where w: "reduce st (split_dash path) root0 = Inr t"
        by (auto simp: resolve_def Let_def split: sum.splits if_splits)
      from reduce_butlast[OF split_dash_ne w] obtain p where
        p: "reduce st (butlast (split_dash path)) root0 = Inr p"
        "getv st p (last (split_dash path)) = Inr t" by blast
      with r True False w have "root = p"
        by (auto simp: resolve_def Let_def split: sum.splits if_splits)
      with p show ?thesis by (auto simp: getv_def split: if_splits)
    qed
  qed
qed

lemma attach_string:
  assumes str: "prop_of (nodes s child) ''attach'' = Str path"
    and ni: "\<not> INDEX_REGEX_test path"
    and a: "attach L s par child = Inr s1"
  shows "\<exists>root key target s0.
           resolve (mem s) (object (nodes s par)) path = Inr (root, key, target) \<and>
           put s (object (nodes s child)) ''__previousAttach'' (getp (mem s) root key) = Inr s0 \<and>
           put s0 root key (object (nodes s child)) = Inr s1"
proof -
  from a str ni obtain root key target where
    r: "resolve (mem s) (object (nodes s par)) path = Inr (root, key, target)"
    by (cases "resolve (mem s) (object (nodes s par)) path") (auto simp: attach_def)
  from resolve_root[OF r] have g: "getv (mem s) root key = Inr (getp (mem s) root key)"
    by (simp add: getv_def)
  from a str ni r g show ?thesis
    by (auto simp: attach_def split: sum.splits dest: put_Inr)
qed

lemma detach_string:
  assumes str: "prop_of (nodes s child) ''attach'' = Str path"
    and d: "detach L s par child = Inr s2"
  shows "\<exists>root key target s0.
           resolve (mem s) (object (nodes s par)) path = Inr (root, key, target) \<and>
           put s root key (getp (mem s) (object (nodes s child)) ''__previousAttach'') = Inr s0 \<and>
           delv (mem s0) (object (nodes s child)) ''__previousAttach'' = Inr (mem s2) \<and>
           nodes s2 = nodes s \<and> calls s2 = calls s"
proof -
  from d str obtain root key target where
    r: "resolve (mem s) (object (nodes s par)) path = Inr (root, key, target)"
    by (cases "resolve (mem s) (object (nodes s par)) path") (auto simp: detach_def)
  from d str r show ?thesis
    by (auto simp: detach_def getv_def split: sum.splits if_splits dest: put_Inr)
qed

lemma round_trip:
  assumes p1: "put s co ''__previousAttach'' (getp (mem s) root key) = Inr s0"
    and p2: "put s0 root key co = Inr s1"
    and p3: "put s1 root key (getp (mem s1) co ''__previousAttach'') = Inr s3"
    and dl: "delv (mem s3) co ''__previousAttach'' = Inr st"
    and na: "root \<noteq> co \<or> key \<noteq> ''__previousAttach''"
  shows "getp st root key = getp (mem s) root key \<and> getp st co ''__previousAttach'' = Undefined"
proof -
  let ?pa = "''__previousAttach''"
  have prev: "getp (mem s1) co ?pa = getp (mem s) root key"
  proof -
    have "getp (mem s1) co ?pa = getp (mem s0) co ?pa"
      using put_other_val[OF p2, of co ?pa] na previousAttach_key by auto
    also have "\<dots> = getp (mem s) root key" by (rule put_same[OF p1])
    finally show ?thesis .
  qed
  have "getp st root key = getp (mem s3) root key"
    using delv_other[OF dl, of root key] na by auto
  also have "\<dots> = getp (mem s1) co ?pa" by (rule put_same[OF p3])
  finally have slot: "getp st root key = getp (mem s) root key" using prev by simp
  have cleared: "getp st co ?pa = Undefined"
    by (rule delv_same[OF dl previousAttach_key])
  from slot cleared show ?thesis by simp
qed

lemma attach_detach_string:
  assumes str: "prop_of (nodes s child) ''attach'' = Str path"
    and ni: "\<not> INDEX_REGEX_test path"
    and r0: "resolve (mem s) (object (nodes s par)) path = Inr (root, key, target)"
    and na: "root \<noteq> object (nodes s child) \<or> key \<noteq> ''__previousAttach''"
    and a: "attach L s par child = Inr s1"
    and r1: "resolve (mem s1) (object (nodes s par)) path = Inr (root, key, target')"
    and d: "detach L s1 par child = Inr s2"
  shows "getp (mem s2) root key = getp (mem s) root key \<and>
         getp (mem s2) (object (nodes s child)) ''__previousAttach'' = Undefined \<and>
         nodes s2 = nodes s \<and> calls s2 = calls s"
proof -
  let ?po = "object (nodes s par)" and ?co = "object (nodes s child)"
  from attach_Inr[OF a] have n1: "nodes s1 = nodes s" by simp
  from attach_string[OF str ni a] r0 obtain s0 where
    p1: "put s ?co ''__previousAttach'' (getp (mem s) root key) = Inr s0"
    and p2: "put s0 root key ?co = Inr s1" by auto
  from str n1 have str1: "prop_of (nodes s1 child) ''attach'' = Str path" by simp
  from detach_string[OF str1 d] r1 n1 obtain s3 where
    p3: "put s1 root key (getp (mem s1) ?co ''__previousAttach'') = Inr s3"
    and dl: "delv (mem s3) ?co ''__previousAttach'' = Inr (mem s2)"
    and n2: "nodes s2 = nodes s" "calls s2 = calls s1" by auto
  from put_Inr[OF p1] put_Inr[OF p2] have "calls s1 = calls s" by simp
  with round_trip[OF p1 p2 p3 dl na] n2 show ?thesis by simp
qed


text \<open>
  For a path without separator the round trip does give the slot its value back: the
  path resolves to the parent object's own slot both times.
\<close>

lemma attach_detach_plain:
  assumes str: "prop_of (nodes s child) ''attach'' = Str path"
    and plain: "CHR ''-'' \<notin> set path"
    and na: "object (nodes s par) \<noteq> object (nodes s child) \<or> path \<noteq> ''__previousAttach''"
    and r: "attach_detach L s par child = Inr s2"
  shows "getp (mem s2) (object (nodes s par)) path = getp (mem s) (object (nodes s par)) path \<and>
         getp (mem s2) (object (nodes s child)) ''__previousAttach'' = Undefined \<and>
         nodes s2 = nodes s \<and> calls s2 = calls s"
proof -
  let ?po = "object (nodes s par)"
  from r obtain s1 where a: "attach L s par child = Inr s1" and d: "detach L s1 par child = Inr s2"
    by (auto simp: attach_detach_def split: sum.splits)
  note ni = no_dash_no_index[OF plain]
  from attach_string[OF str ni a] have n0: "\<not> nullish ?po"
    by (auto simp: resolve_plain[OF plain] split: if_splits)
  from attach_Inr[OF a] have n1: "nodes s1 = nodes s" by simp
  from n0 have r0: "resolve (mem s) ?po path = Inr (?po, path, getp (mem s) ?po path)"
    and r1: "resolve (mem s1) ?po path = Inr (?po, path, getp (mem s1) ?po path)"
    by (simp_all add: resolve_plain[OF plain])
  from attach_detach_string[OF str ni r0 na a r1 d] show ?thesis .
qed

lemma attach_detach_returns:
  assumes str: "prop_of (nodes s child) ''attach'' = Str path"
    and plain: "CHR ''-'' \<notin> set path"
    and po: "object (nodes s par) = Ref p" and co: "object (nodes s child) = Ref c"
    and pl: "elems (objs (mem s) p) = None"
  shows "\<exists>s2. attach_detach L s par child = Inr s2"
proof -
  have pa: "parse_index ''__previousAttach'' = None"
    using previousAttach_key by (simp add: slot_key_def)
  from str plain po co pl pa show ?thesis
    by (cases "elems (objs (mem s) c)")
       (auto simp: attach_detach_def attach_def detach_def no_dash_no_index resolve_plain
          put_def setv_def set_prop_def getv_def nullish_def delv_def getp_def)
qed

text \<open>
  Whatever the descriptor, a \<open>detach\<close> that returns has cleared the bookkeeping field
  of the child's object.
\<close>

lemma detach_clears:
  assumes d: "detach L s par child = Inr s'"
  shows "getp (mem s') (object (nodes s child)) ''__previousAttach'' = Undefined \<and>
         nodes s' = nodes s"
proof -
  from d obtain s1 st where s1: "nodes s1 = nodes s"
    and dl: "delv (mem s1) (object (nodes s1 child)) ''__previousAttach'' = Inr st"
    and s': "s' = s1\<lparr>mem := st\<rparr>"
    unfolding detach_def
    by (auto split: sum.splits val.splits if_splits prod.splits dest: put_Inr call_Inr)
  from delv_same[OF dl previousAttach_key] s1 s' show ?thesis by simp
qed

text \<open>
  C3. Node 1 attaches to \<open>attributes-position\<close>, and its object has a \<open>set\<close>, as a
  buffer attribute has. At attach time the path resolves to the slot \<open>position\<close> of
  object 11, which is empty, and the child's object is put there. At detach time the
  target of the path is the child's object, which has a settor, so \<open>resolve\<close> keeps the
  root it was given: \<open>detach\<close> writes the recorded value, \<open>undefined\<close>, to the slot
  \<open>position\<close> of the owner itself (object 10), and the slot of object 11 keeps the
  child's object. The slot has not got back the value it held before the attach.

  Where the path resolves the same both times (node 3, whose object has no settor), the
  slot reads \<open>undefined\<close> as before, and object 11 now holds it as a slot of its own.
\<close>

theorem attach_detach_pierced:
  "prop_of (nodes owner 1) ''attach'' = Str ''attributes-position'' \<and>
   object (nodes owner 0) = Ref 10 \<and> object (nodes owner 1) = Ref 12 \<and>
   has_settor (mem owner) (Ref 12) \<and>
   resolve (mem owner) (Ref 10) ''attributes-position'' = Inr (Ref 11, ''position'', Undefined) \<and>
   slots (objs (mem owner) 11) ''position'' = None \<and>
   slots (objs (mem owner) 10) ''position'' = None \<and>
   slot_after (attach three owner 0 1) (Ref 11) ''position'' = Some (Ref 12) \<and>
   (case attach three owner 0 1 of
      Inl e \<Rightarrow> False
    | Inr s1 \<Rightarrow> resolve (mem s1) (Ref 10) ''attributes-position'' = Inr (Ref 10, ''position'', Ref 12)) \<and>
   attach_detach three owner 0 1 =
     Inr (owner\<lparr>mem := (mem owner)\<lparr>objs := (objs (mem owner))
        (10 := plain [''attributes'' \<mapsto> Ref 11, ''map'' \<mapsto> Num 7, ''position'' \<mapsto> Undefined],
         11 := plain [''position'' \<mapsto> Ref 12])\<rparr>\<rparr>) \<and>
   slot_after (attach_detach three owner 0 1) (Ref 11) ''position'' = Some (Ref 12) \<and>
   prop_of (nodes owner 3) ''attach'' = Str ''attributes-uv'' \<and>
   slots (objs (mem owner) 11) ''uv'' = None \<and>
   attach_detach three owner 0 3 =
     Inr (owner\<lparr>mem := (mem owner)\<lparr>objs := (objs (mem owner))
        (11 := plain [''uv'' \<mapsto> Undefined])\<rparr>\<rparr>)"
  by (simp add: owner_def slot_after_def attach_detach_def eval_host eval_store Let_def fun_eq_iff)

end
